theory Spec2Isabelle
  imports Complex_Main "HOL-Library.Multiset"
begin

section \<open>Data model (src/types/index.ts)\<close>

text \<open>
  A JavaScript number is written as the real it denotes; the operations on numbers that
  round are parameters of the detector (see the arithmetic below). An ISO 8601
  \<open>timestamp\<close> string is written as the instant \<open>new Date(timestamp).getTime()\<close>
  denotes, in milliseconds since the epoch (a string that does not parse has no
  counterpart here). The wall clock (\<open>Date.now()\<close>, one reading per pass) and the random
  identifier generator (\<open>generateId\<close>) are inputs of the functions that read them. An
  optional field is an \<open>option\<close>, \<open>null\<close> is \<open>None\<close>. The field \<open>id\<close> of a report is
  \<open>report_id\<close> and that of a zone \<open>zone_id\<close>, the field \<open>notes\<close> is \<open>report_notes\<close>.
\<close>

datatype RiskLevel = Low | Medium | High | Unknown

datatype SyncStatus = Pending | Syncing | Uploaded | Failed

record GPSCoordinates =
  latitude :: real
  longitude :: real
  accuracy :: "real option"

record MLPrediction =
  species_name :: string
  confidence_score :: real
  invasive_risk_level :: RiskLevel

record InvasiveReport =
  report_id :: string
  imageUri :: string
  audioUri :: "string option"
  audioDuration :: "real option"
  coordinates :: GPSCoordinates
  timestamp :: int
  report_notes :: string
  prediction :: "MLPrediction option"
  syncStatus :: SyncStatus
  userId :: string

record OutbreakZone =
  zone_id :: string
  centerCoordinates :: GPSCoordinates
  radiusKm :: real
  reportCount :: nat
  detectedAt :: int
  reports :: "InvasiveReport list"

section \<open>Configuration (constants: OUTBREAK\_CONFIG)\<close>

definition MIN_REPORTS :: nat where
  "MIN_REPORTS = 5"

definition RADIUS_KM :: real where
  "RADIUS_KM = 5"

definition TIME_WINDOW_DAYS :: real where
  "TIME_WINDOW_DAYS = 7"

definition MIN_CONFIDENCE :: real where
  "MIN_CONFIDENCE = 0.75"

section \<open>Geometry utilities (utils/geo)\<close>

text \<open>The formulas of the source, computed without rounding.\<close>

definition toRad :: "real \<Rightarrow> real" where
  "toRad deg = (deg * pi) / 180"

text \<open>\<open>Math.atan2(y, x)\<close>: the angle of the point \<open>(x, y)\<close>, in \<open>(-pi, pi]\<close>.\<close>

definition atan2 :: "real \<Rightarrow> real \<Rightarrow> real" where
  "atan2 y x =
     (if 0 < x then arctan (y / x)
      else if x < 0 \<and> 0 \<le> y then arctan (y / x) + pi
      else if x < 0 \<and> y < 0 then arctan (y / x) - pi
      else if 0 < y then pi / 2
      else if y < 0 then - (pi / 2)
      else 0)"

definition haversineDistanceKm :: "real \<Rightarrow> real \<Rightarrow> real \<Rightarrow> real \<Rightarrow> real" where
  "haversineDistanceKm lat1 lon1 lat2 lon2 =
     (let R = 6371;
          dLat = toRad (lat2 - lat1);
          dLon = toRad (lon2 - lon1);
          a = (sin (dLat / 2))\<^sup>2 +
              cos (toRad lat1) * cos (toRad lat2) * (sin (dLon / 2))\<^sup>2;
          c = 2 * atan2 (sqrt a) (sqrt (1 - a))
      in R * c)"

text \<open>
  \<open>isWithinDays(dateStr, days)\<close>; \<open>date\<close> is the parsed \<open>dateStr\<close> and \<open>now\<close> the value
  of \<open>Date.now()\<close>.
\<close>

definition isWithinDays :: "int \<Rightarrow> int \<Rightarrow> real \<Rightarrow> bool" where
  "isWithinDays date now days =
     (let windowMs = days * 24 * 60 * 60 * 1000
      in real_of_int (now - date) \<le> windowMs)"

subsection \<open>Number arithmetic\<close>

text \<open>
  A JavaScript number is an IEEE double. Every finite double is a real, and doubles
  compare the way reals do, but \<open>+\<close>, \<open>/\<close> and the \<open>Math\<close> functions round their
  results. The functions below that add, divide or measure distances therefore take the
  arithmetic as a parameter: \<open>num_haversine\<close> is \<open>haversineDistanceKm\<close> as the machine
  computes it, \<open>num_add\<close> and \<open>num_div\<close> are its \<open>+\<close> and \<open>/\<close>. \<open>exact\<close> is the
  arithmetic without rounding. The comparisons of the code (\<open>\<le>\<close>, \<open>\<ge>\<close>) and the
  subtraction of two timestamps, which is exact on integers of this size, are not
  parameters.
\<close>

record arith =
  num_haversine :: "real \<Rightarrow> real \<Rightarrow> real \<Rightarrow> real \<Rightarrow> real"
  num_add :: "real \<Rightarrow> real \<Rightarrow> real"
  num_div :: "real \<Rightarrow> real \<Rightarrow> real"

definition exact :: arith where
  "exact = \<lparr> num_haversine = haversineDistanceKm, num_add = (+), num_div = (/) \<rparr>"

section \<open>Outbreak detection (services/outbreakService.ts)\<close>

definition isHighRisk :: "InvasiveReport \<Rightarrow> bool" where
  "isHighRisk report =
     (case prediction report of
        None \<Rightarrow> False
      | Some p \<Rightarrow> invasive_risk_level p = High \<and> MIN_CONFIDENCE \<le> confidence_score p)"

definition candidates_of :: "int \<Rightarrow> InvasiveReport list \<Rightarrow> InvasiveReport list" where
  "candidates_of now rs =
     filter (\<lambda>r. isHighRisk r \<and> isWithinDays (timestamp r) now TIME_WINDOW_DAYS) rs"

definition cluster_of :: "arith \<Rightarrow> InvasiveReport \<Rightarrow> InvasiveReport list \<Rightarrow> InvasiveReport list" where
  "cluster_of ar anchor candidates =
     filter (\<lambda>r. num_haversine ar
                    (latitude (coordinates anchor)) (longitude (coordinates anchor))
                    (latitude (coordinates r)) (longitude (coordinates r)) \<le> RADIUS_KM)
       candidates"

text \<open>The distance between the positions of two reports, as the cluster filter takes it.\<close>

definition distanceKm :: "arith \<Rightarrow> InvasiveReport \<Rightarrow> InvasiveReport \<Rightarrow> real" where
  "distanceKm ar a r =
     num_haversine ar (latitude (coordinates a)) (longitude (coordinates a))
       (latitude (coordinates r)) (longitude (coordinates r))"

definition make_zone :: "arith \<Rightarrow> string \<Rightarrow> int \<Rightarrow> InvasiveReport list \<Rightarrow> OutbreakZone" where
  "make_zone ar zid now cluster =
     (let avgLat = num_div ar (foldl (\<lambda>s r. num_add ar s (latitude (coordinates r))) 0 cluster)
                     (real (length cluster));
          avgLon = num_div ar (foldl (\<lambda>s r. num_add ar s (longitude (coordinates r))) 0 cluster)
                     (real (length cluster))
      in \<lparr> zone_id = zid,
           centerCoordinates = \<lparr> latitude = avgLat, longitude = avgLon, accuracy = None \<rparr>,
           radiusKm = RADIUS_KM,
           reportCount = length cluster,
           detectedAt = now,
           reports = cluster \<rparr>)"

text \<open>
  The \<open>for (const anchor of candidates)\<close> loop: \<open>todo\<close> is the part of \<open>candidates\<close>
  still to visit, \<open>used\<close> the set of claimed ids, \<open>zones\<close> the zones pushed so far.
  \<open>gen k\<close> is the identifier \<open>generateId()\<close> returns for the zone pushed at index \<open>k\<close>.
\<close>

fun sweep :: "arith \<Rightarrow> (nat \<Rightarrow> string) \<Rightarrow> int \<Rightarrow> InvasiveReport list \<Rightarrow> InvasiveReport list \<Rightarrow>
    string set \<Rightarrow> OutbreakZone list \<Rightarrow> OutbreakZone list" where
  "sweep ar gen now candidates [] used zones = zones"
| "sweep ar gen now candidates (anchor # todo) used zones =
     (if report_id anchor \<in> used then sweep ar gen now candidates todo used zones
      else
        let cluster = cluster_of ar anchor candidates in
        if MIN_REPORTS \<le> length cluster then
          sweep ar gen now candidates todo (used \<union> set (map report_id cluster))
            (zones @ [make_zone ar (gen (length zones)) now cluster])
        else sweep ar gen now candidates todo used zones)"

text \<open>The value of \<open>used\<close> when the same loop has gone through \<open>todo\<close>.\<close>

fun visited :: "arith \<Rightarrow> InvasiveReport list \<Rightarrow> InvasiveReport list \<Rightarrow> string set \<Rightarrow> string set" where
  "visited ar candidates [] used = used"
| "visited ar candidates (anchor # todo) used =
     (if report_id anchor \<in> used then visited ar candidates todo used
      else
        let cluster = cluster_of ar anchor candidates in
        if MIN_REPORTS \<le> length cluster then
          visited ar candidates todo (used \<union> set (map report_id cluster))
        else visited ar candidates todo used)"

definition detectOutbreaks :: "arith \<Rightarrow> (nat \<Rightarrow> string) \<Rightarrow> int \<Rightarrow> InvasiveReport list \<Rightarrow>
    OutbreakZone list" where
  "detectOutbreaks ar gen now rs =
     (let candidates = candidates_of now rs
      in sweep ar gen now candidates candidates {} [])"

text \<open>The ids of the members of a list of zones.\<close>

definition zone_members :: "OutbreakZone list \<Rightarrow> string set" where
  "zone_members zones = (\<Union>z \<in> set zones. set (map report_id (reports z)))"

text \<open>
  An arithmetic whose distances are within half a kilometre of the exact haversine
  distance.
\<close>

definition accurate :: "arith \<Rightarrow> bool" where
  "accurate ar =
     (\<forall>lat1 lon1 lat2 lon2.
        \<bar>num_haversine ar lat1 lon1 lat2 lon2 - haversineDistanceKm lat1 lon1 lat2 lon2\<bar> \<le> 1 / 2)"

section \<open>Record store (services/storageService.ts)\<close>

text \<open>
  AsyncStorage holds one serialised report list under each of the two keys; an absent key
  reads as the empty list, and \<open>JSON.stringify\<close>/\<open>JSON.parse\<close> are inverse on reports.
  Its calls may reject: \<open>readFails k\<close> says that reading key \<open>k\<close> fails
  (\<open>getItem\<close> rejects or \<open>JSON.parse\<close> throws), \<open>writeFails k v\<close> that
  \<open>setItem\<close> of the value \<open>v\<close> under \<open>k\<close> rejects. A rejected write leaves
  the stored value as it was.
\<close>

datatype error = StorageError | NetworkError

datatype storage_key = PENDING_REPORTS | SYNCED_REPORTS

record storage =
  pending :: "InvasiveReport list"
  synced :: "InvasiveReport list"

record faults =
  readFails :: "storage_key \<Rightarrow> bool"
  writeFails :: "storage_key \<Rightarrow> InvasiveReport list \<Rightarrow> bool"

definition reliable :: faults where
  "reliable = \<lparr> readFails = (\<lambda>k. False), writeFails = (\<lambda>k v. False) \<rparr>"

definition getItem :: "faults \<Rightarrow> storage_key \<Rightarrow> storage \<Rightarrow> error + InvasiveReport list" where
  "getItem fs k st =
     (if readFails fs k then Inl StorageError
      else Inr (case k of PENDING_REPORTS \<Rightarrow> pending st | SYNCED_REPORTS \<Rightarrow> synced st))"

definition setItem :: "faults \<Rightarrow> storage_key \<Rightarrow> InvasiveReport list \<Rightarrow> storage \<Rightarrow>
    (error + unit) \<times> storage" where
  "setItem fs k v st =
     (if writeFails fs k v then (Inl StorageError, st)
      else (Inr (), case k of PENDING_REPORTS \<Rightarrow> st\<lparr>pending := v\<rparr>
                            | SYNCED_REPORTS \<Rightarrow> st\<lparr>synced := v\<rparr>))"

text \<open>\<open>Promise.all\<close> of two writes: both are issued, and the result rejects if one does.\<close>

definition setBoth :: "faults \<Rightarrow> InvasiveReport list \<Rightarrow> InvasiveReport list \<Rightarrow> storage \<Rightarrow>
    (error + unit) \<times> storage" where
  "setBoth fs newPending newSynced st =
     (let (r1, st1) = setItem fs PENDING_REPORTS newPending st;
          (r2, st2) = setItem fs SYNCED_REPORTS newSynced st1
      in (case r1 of Inl e \<Rightarrow> Inl e | Inr u \<Rightarrow> r2, st2))"

text \<open>Most recent first: the comparator is \<open>b.timestamp - a.timestamp\<close>, the sort stable.\<close>

definition sortRecentFirst :: "InvasiveReport list \<Rightarrow> InvasiveReport list" where
  "sortRecentFirst rs = sort_key (\<lambda>r. - timestamp r) rs"

definition getAllReports :: "faults \<Rightarrow> storage \<Rightarrow> InvasiveReport list" where
  "getAllReports fs st =
     (case getItem fs PENDING_REPORTS st of
        Inl e \<Rightarrow> []
      | Inr pendingRaw \<Rightarrow>
          (case getItem fs SYNCED_REPORTS st of
             Inl e \<Rightarrow> []
           | Inr syncedRaw \<Rightarrow> sortRecentFirst (pendingRaw @ syncedRaw)))"

definition getPendingReports :: "faults \<Rightarrow> storage \<Rightarrow> InvasiveReport list" where
  "getPendingReports fs st =
     (case getItem fs PENDING_REPORTS st of Inl e \<Rightarrow> [] | Inr raw \<Rightarrow> raw)"

definition getSyncedReports :: "faults \<Rightarrow> storage \<Rightarrow> InvasiveReport list" where
  "getSyncedReports fs st =
     (case getItem fs SYNCED_REPORTS st of Inl e \<Rightarrow> [] | Inr raw \<Rightarrow> raw)"

definition saveReport :: "faults \<Rightarrow> InvasiveReport \<Rightarrow> storage \<Rightarrow> (error + unit) \<times> storage" where
  "saveReport fs report st =
     (let pending = getPendingReports fs st;
          filtered = filter (\<lambda>r. report_id r \<noteq> report_id report) pending
      in setItem fs PENDING_REPORTS (filtered @ [report]) st)"

definition updateReportStatus :: "faults \<Rightarrow> string \<Rightarrow> SyncStatus \<Rightarrow> storage \<Rightarrow>
    (error + unit) \<times> storage" where
  "updateReportStatus fs i status st =
     (let pending = getPendingReports fs st;
          updated = map (\<lambda>r. if report_id r = i then r\<lparr>syncStatus := status\<rparr> else r) pending
      in setItem fs PENDING_REPORTS updated st)"

definition markReportSynced :: "faults \<Rightarrow> string \<Rightarrow> storage \<Rightarrow> (error + unit) \<times> storage" where
  "markReportSynced fs i st =
     (let pending = getPendingReports fs st;
          synced = getSyncedReports fs st
      in case find (\<lambda>r. report_id r = i) pending of
           None \<Rightarrow> (Inr (), st)
         | Some target \<Rightarrow>
             let newPending = filter (\<lambda>r. report_id r \<noteq> i) pending;
                 newSynced = synced @ [target\<lparr>syncStatus := Uploaded\<rparr>]
             in setBoth fs newPending newSynced st)"

definition deleteReport :: "faults \<Rightarrow> string \<Rightarrow> storage \<Rightarrow> (error + unit) \<times> storage" where
  "deleteReport fs i st =
     (let pending = getPendingReports fs st;
          synced = getSyncedReports fs st
      in setBoth fs (filter (\<lambda>r. report_id r \<noteq> i) pending)
           (filter (\<lambda>r. report_id r \<noteq> i) synced) st)"

text \<open>A sequence of store operations, run from a given content; it stops at a rejection.\<close>

datatype store_op =
    SaveReport InvasiveReport
  | UpdateReportStatus string SyncStatus
  | MarkReportSynced string
  | DeleteReport string

fun store_step :: "faults \<Rightarrow> store_op \<Rightarrow> storage \<Rightarrow> (error + unit) \<times> storage" where
  "store_step fs (SaveReport r) st = saveReport fs r st"
| "store_step fs (UpdateReportStatus i status) st = updateReportStatus fs i status st"
| "store_step fs (MarkReportSynced i) st = markReportSynced fs i st"
| "store_step fs (DeleteReport i) st = deleteReport fs i st"

fun store_run :: "faults \<Rightarrow> store_op list \<Rightarrow> storage \<Rightarrow> (error + unit) \<times> storage" where
  "store_run fs [] st = (Inr (), st)"
| "store_run fs (op # ops) st =
     (case store_step fs op st of
        (Inl e, st') \<Rightarrow> (Inl e, st')
      | (Inr u, st') \<Rightarrow> store_run fs ops st')"

definition empty_storage :: storage where
  "empty_storage = \<lparr> pending = [], synced = [] \<rparr>"

definition pending_ids :: "storage \<Rightarrow> string list" where
  "pending_ids st = map report_id (pending st)"

definition synced_ids :: "storage \<Rightarrow> string list" where
  "synced_ids st = map report_id (synced st)"

text \<open>
  Bucket exclusivity: no id occurs twice in the store, neither inside one bucket nor
  across the two.
\<close>

definition exclusive :: "storage \<Rightarrow> bool" where
  "exclusive st = distinct (pending_ids st @ synced_ids st)"

text \<open>Every write of the run succeeds.\<close>

definition writes_succeed :: "faults \<Rightarrow> bool" where
  "writes_succeed fs = (\<forall>k v. \<not> writeFails fs k v)"

text \<open>
  No \<open>saveReport\<close> of the run is given a report whose id is in the synced bucket at
  the moment of the call.
\<close>

fun saves_unsynced :: "faults \<Rightarrow> store_op list \<Rightarrow> storage \<Rightarrow> bool" where
  "saves_unsynced fs [] st = True"
| "saves_unsynced fs (op # ops) st =
     ((case op of SaveReport r \<Rightarrow> report_id r \<notin> set (synced_ids st) | _ \<Rightarrow> True) \<and>
      saves_unsynced fs ops (snd (store_step fs op st)))"

section \<open>Sync manager (services/syncManager.ts)\<close>

record SyncReportPayload =
  pl_id :: string
  pl_imageUri :: string
  pl_audioUri :: "string option"
  pl_latitude :: real
  pl_longitude :: real
  pl_timestamp :: int
  pl_notes :: string
  pl_prediction :: "MLPrediction option"
  pl_userId :: string

text \<open>
  The collaborators of one pass: the connectivity answer of \<open>NetInfo.fetch()\<close>, and the
  outcome of each call of the remote gateway (\<open>Inl\<close>: the call rejects).
\<close>

record env =
  isConnected :: bool
  predictSpecies :: "string \<Rightarrow> error + MLPrediction"
  uploadReport :: "SyncReportPayload \<Rightarrow> error + unit"
  fetchAllReports :: "error + InvasiveReport list"

text \<open>
  The module state: the store, the \<open>isSyncing\<close> flag, and two traces, oldest first:
  the reports handed to \<open>notifyListeners\<close> and the payloads handed to \<open>uploadReport\<close>.
\<close>

record sync_state =
  disk :: storage
  isSyncing :: bool
  notified :: "InvasiveReport list"
  uploads :: "SyncReportPayload list"

definition notifyListeners :: "InvasiveReport \<Rightarrow> sync_state \<Rightarrow> sync_state" where
  "notifyListeners report s = s\<lparr>notified := notified s @ [report]\<rparr>"

text \<open>
  \<open>finalReport\<close>: the report with the prediction filled in when it was missing and
  the prediction call succeeded. The response of \<open>predictSpecies\<close> is taken as the
  prediction it carries (its optional \<open>top_predictions\<close> list is left out).
\<close>

definition finalReport :: "env \<Rightarrow> InvasiveReport \<Rightarrow> InvasiveReport" where
  "finalReport env report =
     (case prediction report of
        Some p \<Rightarrow> report
      | None \<Rightarrow>
          (case predictSpecies env (imageUri report) of
             Inl e \<Rightarrow> report
           | Inr p \<Rightarrow> report\<lparr>prediction := Some p\<rparr>))"

definition payload_of :: "InvasiveReport \<Rightarrow> SyncReportPayload" where
  "payload_of r =
     \<lparr> pl_id = report_id r,
       pl_imageUri = imageUri r,
       pl_audioUri = audioUri r,
       pl_latitude = latitude (coordinates r),
       pl_longitude = longitude (coordinates r),
       pl_timestamp = timestamp r,
       pl_notes = report_notes r,
       pl_prediction = prediction r,
       pl_userId = userId r \<rparr>"

text \<open>The \<open>catch\<close> block of the loop body.\<close>

definition sync_failed :: "faults \<Rightarrow> InvasiveReport \<Rightarrow> sync_state \<Rightarrow> (error + unit) \<times> sync_state" where
  "sync_failed fs report s =
     (case updateReportStatus fs (report_id report) Failed (disk s) of
        (Inl e, d) \<Rightarrow> (Inl e, s\<lparr>disk := d\<rparr>)
      | (Inr u, d) \<Rightarrow> (Inr (), notifyListeners (report\<lparr>syncStatus := Failed\<rparr>) (s\<lparr>disk := d\<rparr>)))"

text \<open>The body of \<open>for (const report of toSync)\<close>.\<close>

definition sync_report :: "faults \<Rightarrow> env \<Rightarrow> InvasiveReport \<Rightarrow> sync_state \<Rightarrow>
    (error + unit) \<times> sync_state" where
  "sync_report fs env report s =
     (case updateReportStatus fs (report_id report) Syncing (disk s) of
        (Inl e, d1) \<Rightarrow> (Inl e, s\<lparr>disk := d1\<rparr>)
      | (Inr u, d1) \<Rightarrow>
          let s1 = notifyListeners (report\<lparr>syncStatus := Syncing\<rparr>) (s\<lparr>disk := d1\<rparr>);
              final = finalReport env report;
              s2 = s1\<lparr>uploads := uploads s1 @ [payload_of final]\<rparr>
          in case uploadReport env (payload_of final) of
               Inl e \<Rightarrow> sync_failed fs report s2
             | Inr u \<Rightarrow>
                 (case markReportSynced fs (report_id final) (disk s2) of
                    (Inl e, d3) \<Rightarrow> sync_failed fs report (s2\<lparr>disk := d3\<rparr>)
                  | (Inr u, d3) \<Rightarrow>
                      (Inr (), notifyListeners (final\<lparr>syncStatus := Uploaded\<rparr>)
                                 (s2\<lparr>disk := d3\<rparr>))))"

fun sync_all :: "faults \<Rightarrow> env \<Rightarrow> InvasiveReport list \<Rightarrow> sync_state \<Rightarrow>
    (error + unit) \<times> sync_state" where
  "sync_all fs env [] s = (Inr (), s)"
| "sync_all fs env (report # toSync) s =
     (case sync_report fs env report s of
        (Inl e, s') \<Rightarrow> (Inl e, s')
      | (Inr u, s') \<Rightarrow> sync_all fs env toSync s')"

definition selected :: "InvasiveReport \<Rightarrow> bool" where
  "selected r = (syncStatus r = Pending \<or> syncStatus r = Failed)"

text \<open>The upload of a report, as the pass sends it, is accepted by the gateway.\<close>

definition upload_succeeds :: "env \<Rightarrow> InvasiveReport \<Rightarrow> bool" where
  "upload_succeeds env r =
     (case uploadReport env (payload_of (finalReport env r)) of Inl e \<Rightarrow> False | Inr u \<Rightarrow> True)"

text \<open>One invocation of \<open>runSync\<close>, run without interleaving; \<open>Inl\<close> is the rejection
  of the promise it returns.\<close>

definition runSync :: "faults \<Rightarrow> env \<Rightarrow> sync_state \<Rightarrow> (error + unit) \<times> sync_state" where
  "runSync fs env s =
     (if isSyncing s then (Inr (), s)
      else if \<not> isConnected env then (Inr (), s)
      else
        let s1 = s\<lparr>isSyncing := True\<rparr>;
            pending = getPendingReports fs (disk s1);
            toSync = filter selected pending;
            (res, s2) = sync_all fs env toSync s1
        in (res, s2\<lparr>isSyncing := False\<rparr>))"

subsection \<open>Interleaved invocations of runSync\<close>

text \<open>
  \<open>runSync\<close> is an async function: it runs up to its first \<open>await\<close> when it is called
  and is resumed later. Its guard is split by the \<open>await NetInfo.fetch()\<close>: the flag is
  read before it and set after it. An invocation is therefore at one of three places:
  suspended at \<open>NetInfo.fetch()\<close>, inside the \<open>try\<close> block (the pass), or returned.
\<close>

datatype place = AwaitNetInfo | InPass | Returned

record guard_state =
  flag :: bool
  invocations :: "place list"

datatype guard_event =
    Invoke
  | NetInfoResolves nat bool
  | PassEnds nat

fun guard_step :: "guard_event \<Rightarrow> guard_state \<Rightarrow> guard_state" where
  "guard_step Invoke g =
     (if flag g then g\<lparr>invocations := invocations g @ [Returned]\<rparr>
      else g\<lparr>invocations := invocations g @ [AwaitNetInfo]\<rparr>)"
| "guard_step (NetInfoResolves k online) g =
     (if k < length (invocations g) \<and> invocations g ! k = AwaitNetInfo then
        (if \<not> online then g\<lparr>invocations := (invocations g)[k := Returned]\<rparr>
         else g\<lparr>flag := True, invocations := (invocations g)[k := InPass]\<rparr>)
      else g)"
| "guard_step (PassEnds k) g =
     (if k < length (invocations g) \<and> invocations g ! k = InPass then
        g\<lparr>flag := False, invocations := (invocations g)[k := Returned]\<rparr>
      else g)"

definition guard_run :: "guard_event list \<Rightarrow> guard_state \<Rightarrow> guard_state" where
  "guard_run evs g = foldl (\<lambda>g ev. guard_step ev g) g evs"

definition in_flight :: "guard_state \<Rightarrow> nat" where
  "in_flight g = length (filter (\<lambda>p. p = InPass) (invocations g))"

definition idle :: guard_state where
  "idle = \<lparr> flag = False, invocations = [] \<rparr>"

section \<open>Reconciliation (contexts/ReportsContext.tsx)\<close>

record ui_state =
  ui_reports :: "InvasiveReport list"
  outbreakZones :: "OutbreakZone list"
  isRefreshing :: bool

text \<open>The merge inside \<open>refresh\<close>, from \<open>serverIds\<close> to the sorted \<open>all\<close>.\<close>

definition merge_reports :: "InvasiveReport list \<Rightarrow> InvasiveReport list \<Rightarrow> InvasiveReport list" where
  "merge_reports local serverReports =
     (let serverIds = set (map report_id serverReports);
          localOnly = filter (\<lambda>r. report_id r \<notin> serverIds \<and>
                                  (syncStatus r = Pending \<or> syncStatus r = Failed)) local;
          all = serverReports @ localOnly
      in sortRecentFirst all)"

text \<open>
  \<open>refresh\<close>; \<open>Inl\<close> would be an exception leaving it. \<open>getAllReports\<close> catches its own
  failures, and the fetch is wrapped in \<open>try\<close>/\<open>catch\<close>.
\<close>

definition refresh :: "arith \<Rightarrow> faults \<Rightarrow> env \<Rightarrow> (nat \<Rightarrow> string) \<Rightarrow> int \<Rightarrow> storage \<Rightarrow>
    ui_state \<Rightarrow> error + ui_state" where
  "refresh ar fs env gen now st ui =
     (let ui1 = ui\<lparr>isRefreshing := True\<rparr>;
          local = getAllReports fs st;
          serverReports = (case fetchAllReports env of Inl e \<Rightarrow> [] | Inr rs \<Rightarrow> rs);
          all = merge_reports local serverReports;
          ui2 = ui1\<lparr>ui_reports := all, outbreakZones := detectOutbreaks ar gen now all\<rparr>
      in Inr (ui2\<lparr>isRefreshing := False\<rparr>))"

section \<open>Example records\<close>

definition kudzu :: MLPrediction where
  "kudzu = \<lparr> species_name = ''Kudzu'', confidence_score = 0.8, invasive_risk_level = High \<rparr>"

text \<open>A pending high-risk sighting with the given id, position and capture time.\<close>

definition sighting :: "string \<Rightarrow> real \<Rightarrow> real \<Rightarrow> int \<Rightarrow> InvasiveReport" where
  "sighting i lat lon t =
     \<lparr> report_id = i, imageUri = ''file:///photo.jpg'', audioUri = None, audioDuration = None,
       coordinates = \<lparr> latitude = lat, longitude = lon, accuracy = None \<rparr>,
       timestamp = t, report_notes = [], prediction = Some kudzu,
       syncStatus = Pending, userId = ''u1'' \<rparr>"

text \<open>The clock of the examples, and one day in milliseconds.\<close>

definition clock :: int where
  "clock = 1700000000000"

definition dayMs :: int where
  "dayMs = 86400000"

text \<open>A gateway that is unreachable: every call rejects.\<close>

definition offline :: env where
  "offline = \<lparr> isConnected = False, predictSpecies = (\<lambda>u. Inl NetworkError),
      uploadReport = (\<lambda>p. Inl NetworkError), fetchAllReports = Inl NetworkError \<rparr>"

text \<open>A store with one pending and one uploaded record, and the initial view.\<close>

definition st0 :: storage where
  "st0 = \<lparr> pending = [sighting ''a'' 0 0 clock],
           synced = [(sighting ''b'' 0 0 (clock + 5))\<lparr>syncStatus := Uploaded\<rparr>] \<rparr>"

definition ui0 :: ui_state where
  "ui0 = \<lparr> ui_reports = [], outbreakZones = [], isRefreshing = False \<rparr>"

text \<open>A storage that rejects the write of an empty pending list, and nothing else.\<close>

definition flaky :: faults where
  "flaky = \<lparr> readFails = (\<lambda>k. False),
             writeFails = (\<lambda>k v. k = PENDING_REPORTS \<and> v = []) \<rparr>"

text \<open>A gateway that is reachable, cannot classify, and rejects the upload of report \<open>b\<close>.\<close>

definition second_fails :: env where
  "second_fails = \<lparr> isConnected = True, predictSpecies = (\<lambda>u. Inl NetworkError),
      uploadReport = (\<lambda>p. if pl_id p = ''b'' then Inl NetworkError else Inr ()),
      fetchAllReports = Inl NetworkError \<rparr>"

text \<open>Three pending reports and no pass running.\<close>

definition three_pending :: sync_state where
  "three_pending =
     \<lparr> disk = \<lparr> pending = [sighting ''a'' 0 0 clock, sighting ''b'' 0 0 clock,
                           sighting ''c'' 0 0 clock],
                synced = [] \<rparr>,
       isSyncing = False, notified = [], uploads = [] \<rparr>"

text \<open>A pending report that has no prediction yet, and a gateway that classifies it and
  accepts every upload.\<close>

definition unclassified :: InvasiveReport where
  "unclassified = (sighting ''n'' 0 0 clock)\<lparr>prediction := None\<rparr>"

definition classifies :: env where
  "classifies = \<lparr> isConnected = True, predictSpecies = (\<lambda>u. Inr kudzu),
      uploadReport = (\<lambda>p. Inr ()), fetchAllReports = Inr [] \<rparr>"

definition one_unclassified :: sync_state where
  "one_unclassified =
     \<lparr> disk = \<lparr> pending = [unclassified], synced = [] \<rparr>,
       isSyncing = False, notified = [], uploads = [] \<rparr>"

text \<open>A storage that rejects every write.\<close>

definition read_only :: faults where
  "read_only = \<lparr> readFails = (\<lambda>k. False), writeFails = (\<lambda>k v. True) \<rparr>"

text \<open>A storage that rejects every write of a list holding a failed record.\<close>

definition rejects_failed :: faults where
  "rejects_failed = \<lparr> readFails = (\<lambda>k. False),
                      writeFails = (\<lambda>k v. Failed \<in> set (map syncStatus v)) \<rparr>"

text \<open>
  Five high-risk sightings with confidence 0.8, captured one day before \<open>clock\<close>, on the
  meridian of the point (34.05, -118.24) and within 0.01 degrees of latitude of it; the
  same with the fifth moved one degree north; and six sightings on one meridian, at
  latitudes 0, 0.03 (four of them) and 0.06 degrees.
\<close>

definition five_near :: "InvasiveReport list" where
  "five_near =
     [sighting ''r1'' 34.05 (-118.24) (clock - dayMs),
      sighting ''r2'' 34.06 (-118.24) (clock - dayMs),
      sighting ''r3'' 34.04 (-118.24) (clock - dayMs),
      sighting ''r4'' 34.055 (-118.24) (clock - dayMs),
      sighting ''r5'' 34.045 (-118.24) (clock - dayMs)]"

definition four_near_one_far :: "InvasiveReport list" where
  "four_near_one_far =
     [sighting ''r1'' 34.05 (-118.24) (clock - dayMs),
      sighting ''r2'' 34.06 (-118.24) (clock - dayMs),
      sighting ''r3'' 34.04 (-118.24) (clock - dayMs),
      sighting ''r4'' 34.055 (-118.24) (clock - dayMs),
      sighting ''r5'' 35.05 (-118.24) (clock - dayMs)]"

definition chain :: "InvasiveReport list" where
  "chain =
     [sighting ''a'' 0 0 clock,
      sighting ''b1'' 0.03 0 clock, sighting ''b2'' 0.03 0 clock,
      sighting ''b3'' 0.03 0 clock, sighting ''b4'' 0.03 0 clock,
      sighting ''c'' 0.06 0 clock]"

text \<open>A sighting one degree north of the point, followed by \<open>five_near\<close>.\<close>

definition far_first :: "InvasiveReport list" where
  "far_first = sighting ''r0'' 35.05 (-118.24) (clock - dayMs) # five_near"

text \<open>The sightings of \<open>chain\<close> within the radius of its first, and of its last, sighting.\<close>

definition chain_south :: "InvasiveReport list" where
  "chain_south =
     [sighting ''a'' 0 0 clock,
      sighting ''b1'' 0.03 0 clock, sighting ''b2'' 0.03 0 clock,
      sighting ''b3'' 0.03 0 clock, sighting ''b4'' 0.03 0 clock]"

definition chain_north :: "InvasiveReport list" where
  "chain_north =
     [sighting ''b1'' 0.03 0 clock, sighting ''b2'' 0.03 0 clock,
      sighting ''b3'' 0.03 0 clock, sighting ''b4'' 0.03 0 clock,
      sighting ''c'' 0.06 0 clock]"

section \<open>Geometry: facts used below\<close>

lemma pi_ge_three: "3 \<le> pi"
proof -
  have "sin (pi / 6) \<le> pi / 6"
    by (intro sin_x_le_x) simp
  then show ?thesis by (simp add: sin_30)
qed

lemma haversine_same_point: "haversineDistanceKm lat lon lat lon = 0"
  by (simp add: haversineDistanceKm_def toRad_def atan2_def)

text \<open>Along a meridian the distance is the arc length of the latitude difference.\<close>

lemma haversine_same_lon:
  assumes "\<bar>lat2 - lat1\<bar> < 180"
  shows "haversineDistanceKm lat1 lon lat2 lon = 6371 * toRad \<bar>lat2 - lat1\<bar>"
proof -
  define h where "h = toRad (lat2 - lat1) / 2"
  have hb: "\<bar>h\<bar> < pi / 2"
  proof -
    have "\<bar>h\<bar> = \<bar>lat2 - lat1\<bar> * pi / 360"
      by (simp add: h_def toRad_def abs_mult)
    also have "\<dots> < 180 * pi / 360"
      using assms by simp
    finally show ?thesis by simp
  qed
  then have cpos: "0 < cos h"
    by (intro cos_gt_zero_pi) (auto simp: abs_less_iff)
  have a1: "sqrt ((sin h)\<^sup>2) = \<bar>sin h\<bar>" by simp
  have "1 - (sin h)\<^sup>2 = (cos h)\<^sup>2"
    by (simp add: cos_squared_eq)
  then have a2: "sqrt (1 - (sin h)\<^sup>2) = cos h"
    using cpos by simp
  have "\<bar>sin h\<bar> / cos h = tan \<bar>h\<bar>"
  proof (cases "0 \<le> h")
    case True
    then have "0 \<le> sin h"
      using hb by (intro sin_ge_zero) auto
    with True show ?thesis by (simp add: tan_def)
  next
    case False
    then have "sin h < 0"
      using hb by (intro sin_less_zero) auto
    with False show ?thesis by (simp add: tan_def)
  qed
  moreover have "arctan (tan \<bar>h\<bar>) = \<bar>h\<bar>"
    using hb by (intro arctan_tan) auto
  ultimately have "atan2 \<bar>sin h\<bar> (cos h) = \<bar>h\<bar>"
    using cpos by (simp add: atan2_def)
  moreover have "2 * \<bar>h\<bar> = toRad \<bar>lat2 - lat1\<bar>"
    by (simp add: h_def toRad_def abs_mult)
  moreover have "toRad 0 = 0"
    by (simp add: toRad_def)
  ultimately show ?thesis
    using a1 a2 by (simp add: haversineDistanceKm_def Let_def h_def [symmetric])
qed

section \<open>The candidate filter of the outbreak detector\<close>

lemma isWithinDays_iff:
  "isWithinDays date now days \<longleftrightarrow> real_of_int (now - date) \<le> days * 86400000"
  by (simp add: isWithinDays_def Let_def mult.commute)

lemma isHighRisk_iff:
  "isHighRisk r \<longleftrightarrow>
     (\<exists>p. prediction r = Some p \<and> invasive_risk_level p = High \<and>
          MIN_CONFIDENCE \<le> confidence_score p)"
  by (simp add: isHighRisk_def split: option.splits)

lemma isHighRisk_sighting: "isHighRisk (sighting i lat lon t)"
  by (simp add: isHighRisk_def sighting_def kudzu_def MIN_CONFIDENCE_def)

text \<open>
  C5. The candidates of \<open>detectOutbreaks\<close> are exactly the input records that have a
  prediction with risk level high and confidence at least \<open>MIN_CONFIDENCE\<close>, and for
  which \<open>now - capturedAt \<le> TIME_WINDOW_DAYS * 86400000\<close> ms. The bound is inclusive:
  a high-risk record captured exactly that long ago is a candidate, and no record
  captured one millisecond earlier is.
\<close>

theorem candidate_filter:
  "candidates_of now rs =
     filter (\<lambda>r. (\<exists>p. prediction r = Some p \<and> invasive_risk_level p = High \<and>
                       MIN_CONFIDENCE \<le> confidence_score p) \<and>
                  real_of_int (now - timestamp r) \<le> TIME_WINDOW_DAYS * 86400000) rs
   \<and> detectOutbreaks ar gen now rs =
       sweep ar gen now (candidates_of now rs) (candidates_of now rs) {} []
   \<and> (\<forall>r. isHighRisk r \<and> r \<in> set rs \<and>
            real_of_int (now - timestamp r) = TIME_WINDOW_DAYS * 86400000
        \<longrightarrow> r \<in> set (candidates_of now rs))
   \<and> (\<forall>r. real_of_int (now - timestamp r) = TIME_WINDOW_DAYS * 86400000 + 1
        \<longrightarrow> r \<notin> set (candidates_of now rs))"
  by (simp add: candidates_of_def isWithinDays_iff isHighRisk_iff detectOutbreaks_def Let_def)

theorem candidate_filter_witness:
  "candidates_of clock
     [sighting ''a'' 0 0 (clock - 7 * dayMs), sighting ''b'' 0 0 (clock - 7 * dayMs - 1)]
     = [sighting ''a'' 0 0 (clock - 7 * dayMs)]
   \<and> isHighRisk (sighting ''a'' 0 0 (clock - 7 * dayMs))
   \<and> real_of_int (clock - timestamp (sighting ''a'' 0 0 (clock - 7 * dayMs)))
       = TIME_WINDOW_DAYS * 86400000
   \<and> sighting ''a'' 0 0 (clock - 7 * dayMs)
       \<in> set (candidates_of clock [sighting ''a'' 0 0 (clock - 7 * dayMs)])
   \<and> real_of_int (clock - timestamp (sighting ''b'' 0 0 (clock - 7 * dayMs - 1)))
       = TIME_WINDOW_DAYS * 86400000 + 1
   \<and> sighting ''b'' 0 0 (clock - 7 * dayMs - 1)
       \<notin> set (candidates_of clock [sighting ''b'' 0 0 (clock - 7 * dayMs - 1)])"
  using
    candidate_filter [of clock
      "[sighting ''a'' 0 0 (clock - 7 * dayMs), sighting ''b'' 0 0 (clock - 7 * dayMs - 1)]"
      exact "\<lambda>k. ''z''"]
    candidate_filter [of clock "[sighting ''a'' 0 0 (clock - 7 * dayMs)]" exact "\<lambda>k. ''z''"]
    candidate_filter [of clock "[sighting ''b'' 0 0 (clock - 7 * dayMs - 1)]" exact
      "\<lambda>k. ''z''"]
    isHighRisk_sighting [of "''a''" 0 0 "clock - 7 * dayMs"]
  by (simp add: sighting_def kudzu_def clock_def dayMs_def TIME_WINDOW_DAYS_def
      MIN_CONFIDENCE_def)

text \<open>
  C10. A record whose capture time lies after \<open>now\<close> is within every window of a
  non-negative number of days, since \<open>now - capturedAt\<close> is negative; in particular it
  passes the time-window test of the outbreak detector, so that it is a candidate as soon
  as it is high-risk.
\<close>

theorem future_dated_passes:
  assumes "now < timestamp r"
  shows "(\<forall>days. 0 \<le> days \<longrightarrow> isWithinDays (timestamp r) now days)
    \<and> isWithinDays (timestamp r) now TIME_WINDOW_DAYS
    \<and> (r \<in> set (candidates_of now rs) \<longleftrightarrow> r \<in> set rs \<and> isHighRisk r)"
proof -
  have neg: "real_of_int (now - timestamp r) < 0"
    using assms by simp
  have win: "isWithinDays (timestamp r) now days" if "0 \<le> days" for days
  proof -
    have "0 \<le> days * 86400000" using that by simp
    with neg show ?thesis unfolding isWithinDays_iff by linarith
  qed
  have "isWithinDays (timestamp r) now TIME_WINDOW_DAYS"
    by (rule win) (simp add: TIME_WINDOW_DAYS_def)
  then show ?thesis
    using win by (auto simp: candidates_of_def)
qed

theorem future_dated_passes_witness:
  "clock < timestamp (sighting ''a'' 0 0 (clock + dayMs))
   \<and> isWithinDays (timestamp (sighting ''a'' 0 0 (clock + dayMs))) clock 0
   \<and> isWithinDays (timestamp (sighting ''a'' 0 0 (clock + dayMs))) clock TIME_WINDOW_DAYS
   \<and> sighting ''a'' 0 0 (clock + dayMs)
       \<in> set (candidates_of clock [sighting ''a'' 0 0 (clock + dayMs)])"
proof -
  have h: "clock < timestamp (sighting ''a'' 0 0 (clock + dayMs))"
    by (simp add: sighting_def dayMs_def)
  show ?thesis
    using h future_dated_passes [OF h, of "[sighting ''a'' 0 0 (clock + dayMs)]"]
      isHighRisk_sighting [of "''a''" 0 0 "clock + dayMs"]
    by simp
qed

section \<open>Reconciliation: the merged view\<close>

lemma mset_sortRecentFirst: "mset (sortRecentFirst rs) = mset rs"
  by (simp add: sortRecentFirst_def)

lemma sortRecentFirst_sorted_filter:
  "sortRecentFirst (filter P (sortRecentFirst rs)) = filter P (sortRecentFirst rs)"
  unfolding sortRecentFirst_def
  by (intro sort_key_id_if_sorted sorted_filter) simp

lemma merge_reports_mset:
  "mset (merge_reports local server) =
     mset server +
     mset (filter (\<lambda>r. report_id r \<notin> set (map report_id server) \<and>
                        (syncStatus r = Pending \<or> syncStatus r = Failed)) local)"
  by (simp add: merge_reports_def Let_def mset_sortRecentFirst)

lemma filter_id_length_one:
  "distinct (map f xs) \<Longrightarrow> i \<in> set (map f xs) \<Longrightarrow> length (filter (\<lambda>x. f x = i) xs) = 1"
proof (induction xs)
  case Nil
  then show ?case by simp
next
  case (Cons x xs)
  show ?case
  proof (cases "f x = i")
    case True
    from Cons.prems have notin: "f x \<notin> f ` set xs"
      by simp
    have "f y \<noteq> i" if "y \<in> set xs" for y
    proof
      assume "f y = i"
      with True that have "f x \<in> f ` set xs"
        by (metis imageI)
      with notin show False by simp
    qed
    then have "filter (\<lambda>y. f y = i) xs = []"
      by (simp add: filter_empty_conv)
    with True show ?thesis by simp
  next
    case False
    with Cons show ?thesis by simp
  qed
qed

lemma merge_reports_server_id:
  assumes "i \<in> set (map report_id server)"
  shows "mset (filter (\<lambda>r. report_id r = i) (merge_reports local server)) =
      mset (filter (\<lambda>r. report_id r = i) server)"
proof -
  let ?keep = "\<lambda>r. report_id r \<notin> set (map report_id server) \<and>
                    (syncStatus r = Pending \<or> syncStatus r = Failed)"
  have none: "filter (\<lambda>r. report_id r = i) (filter ?keep local) = []"
    using assms by (auto simp: filter_empty_conv)
  have "mset (filter (\<lambda>r. report_id r = i) (merge_reports local server)) =
      filter_mset (\<lambda>r. report_id r = i) (mset (merge_reports local server))"
    by (rule mset_filter)
  also have "\<dots> = filter_mset (\<lambda>r. report_id r = i) (mset server) +
      filter_mset (\<lambda>r. report_id r = i) (mset (filter ?keep local))"
    by (simp only: merge_reports_mset filter_union_mset)
  also have "\<dots> = mset (filter (\<lambda>r. report_id r = i) server) +
      mset (filter (\<lambda>r. report_id r = i) (filter ?keep local))"
    by (simp only: mset_filter)
  also have "\<dots> = mset (filter (\<lambda>r. report_id r = i) server)"
    by (simp only: none mset.simps add_0_right)
  finally show ?thesis .
qed

lemma merge_reports_server_id_once:
  assumes "i \<in> set (map report_id server)" and "distinct (map report_id server)"
  shows "length (filter (\<lambda>r. report_id r = i) (merge_reports local server)) = 1"
proof -
  have "length (filter (\<lambda>r. report_id r = i) (merge_reports local server)) =
      size (mset (filter (\<lambda>r. report_id r = i) (merge_reports local server)))"
    by (simp only: size_mset)
  also have "\<dots> = size (mset (filter (\<lambda>r. report_id r = i) server))"
    by (simp only: merge_reports_server_id [OF assms(1)])
  also have "\<dots> = length (filter (\<lambda>r. report_id r = i) server)"
    by (simp only: size_mset)
  also have "\<dots> = 1"
    by (rule filter_id_length_one [OF assms(2) assms(1)])
  finally show ?thesis .
qed

text \<open>
  C1 (as amended). The merged view holds exactly the server records plus the local records
  whose id is not in the server set and whose syncStatus is pending or failed. For an id
  of the server set, the entries of the merged view with that id are exactly the server's
  entries with that id, never a local one: a single entry when the server list has no two
  records with that id.
\<close>

theorem merge_reports_exact:
  "mset (merge_reports local server) =
     mset server +
     mset (filter (\<lambda>r. report_id r \<notin> set (map report_id server) \<and>
                        (syncStatus r = Pending \<or> syncStatus r = Failed)) local)
   \<and> (i \<in> set (map report_id server) \<longrightarrow>
        mset (filter (\<lambda>r. report_id r = i) (merge_reports local server)) =
        mset (filter (\<lambda>r. report_id r = i) server))
   \<and> (i \<in> set (map report_id server) \<and> distinct (map report_id server) \<longrightarrow>
        length (filter (\<lambda>r. report_id r = i) (merge_reports local server)) = 1)"
proof (intro conjI impI)
  show "mset (merge_reports local server) =
     mset server +
     mset (filter (\<lambda>r. report_id r \<notin> set (map report_id server) \<and>
                        (syncStatus r = Pending \<or> syncStatus r = Failed)) local)"
    by (rule merge_reports_mset)
next
  assume "i \<in> set (map report_id server)"
  then show "mset (filter (\<lambda>r. report_id r = i) (merge_reports local server)) =
        mset (filter (\<lambda>r. report_id r = i) server)"
    by (rule merge_reports_server_id)
next
  assume "i \<in> set (map report_id server) \<and> distinct (map report_id server)"
  then show "length (filter (\<lambda>r. report_id r = i) (merge_reports local server)) = 1"
    using merge_reports_server_id_once by blast
qed

lemma merge_reports_offline:
  "merge_reports (getAllReports fs st) [] =
     filter (\<lambda>r. syncStatus r = Pending \<or> syncStatus r = Failed) (getAllReports fs st)"
proof -
  have "getAllReports fs st = [] \<or> (\<exists>xs. getAllReports fs st = sortRecentFirst xs)"
    by (auto simp: getAllReports_def split: sum.splits)
  then show ?thesis
    by (auto simp: merge_reports_def sortRecentFirst_sorted_filter) (simp add: sortRecentFirst_def)
qed

text \<open>
  C7. Whatever the outcome of the server fetch, \<open>refresh\<close> returns a view and raises
  nothing. When the fetch fails the server set is empty, and the view is the local records
  whose state is pending or failed.
\<close>

theorem refresh_never_raises:
  "\<exists>ui'. refresh ar fs env gen now st ui = Inr ui' \<and> \<not> isRefreshing ui'
     \<and> ui_reports ui' =
         merge_reports (getAllReports fs st)
           (case fetchAllReports env of Inl e \<Rightarrow> [] | Inr rs \<Rightarrow> rs)
     \<and> (\<forall>e. fetchAllReports env = Inl e \<longrightarrow>
           ui_reports ui' =
             filter (\<lambda>r. syncStatus r = Pending \<or> syncStatus r = Failed) (getAllReports fs st))"
  by (auto simp: refresh_def Let_def merge_reports_offline)

lemma getAllReports_reliable: "getAllReports reliable st = sortRecentFirst (pending st @ synced st)"
  by (simp add: getAllReports_def getItem_def reliable_def)

theorem refresh_never_raises_witness:
  "\<exists>ui'. refresh exact reliable offline (\<lambda>k. ''z'') clock st0 ui0 = Inr ui' \<and> \<not> isRefreshing ui'
     \<and> fetchAllReports offline = Inl NetworkError
     \<and> ui_reports ui' = [sighting ''a'' 0 0 clock]"
proof -
  have f: "fetchAllReports offline = Inl NetworkError"
    by (simp add: offline_def)
  have l: "filter (\<lambda>r. syncStatus r = Pending \<or> syncStatus r = Failed)
      (getAllReports reliable st0) = [sighting ''a'' 0 0 clock]"
    by (simp add: getAllReports_reliable st0_def sortRecentFirst_def sighting_def)
  from refresh_never_raises [of exact reliable offline "\<lambda>k. ''z''" clock st0 ui0]
  obtain ui' where "refresh exact reliable offline (\<lambda>k. ''z'') clock st0 ui0 = Inr ui'"
    "\<not> isRefreshing ui'"
    "\<forall>e. fetchAllReports offline = Inl e \<longrightarrow>
       ui_reports ui' = filter (\<lambda>r. syncStatus r = Pending \<or> syncStatus r = Failed)
         (getAllReports reliable st0)"
    by blast
  with f l show ?thesis by auto
qed

theorem merge_reports_exact_witness:
  "''a'' \<in> set (map report_id [(sighting ''a'' 0 0 clock)\<lparr>syncStatus := Uploaded\<rparr>])
   \<and> distinct (map report_id [(sighting ''a'' 0 0 clock)\<lparr>syncStatus := Uploaded\<rparr>])
   \<and> mset (merge_reports [sighting ''a'' 0 0 clock, sighting ''b'' 0 0 clock]
        [(sighting ''a'' 0 0 clock)\<lparr>syncStatus := Uploaded\<rparr>])
      = {# (sighting ''a'' 0 0 clock)\<lparr>syncStatus := Uploaded\<rparr>, sighting ''b'' 0 0 clock #}
   \<and> length (filter (\<lambda>r. report_id r = ''a'')
        (merge_reports [sighting ''a'' 0 0 clock, sighting ''b'' 0 0 clock]
        [(sighting ''a'' 0 0 clock)\<lparr>syncStatus := Uploaded\<rparr>])) = 1"
  using merge_reports_exact [of "[sighting ''a'' 0 0 clock, sighting ''b'' 0 0 clock]"
      "[(sighting ''a'' 0 0 clock)\<lparr>syncStatus := Uploaded\<rparr>]" "''a''"]
  by (simp add: sighting_def)

text \<open>
  The claim as first stated fails when the server list itself repeats an id: both server
  entries reach the merged view.
\<close>

theorem merge_reports_duplicate_counterexample:
  "map report_id (merge_reports [sighting ''a'' 0 0 clock]
      [(sighting ''a'' 0 0 clock)\<lparr>syncStatus := Uploaded\<rparr>,
       (sighting ''a'' 1 1 clock)\<lparr>syncStatus := Uploaded\<rparr>]) = [''a'', ''a'']"
  by (simp add: merge_reports_def sortRecentFirst_def sighting_def)

section \<open>The record store: bucket exclusivity\<close>

lemma setItem_ok:
  "writes_succeed fs \<Longrightarrow> setItem fs k v st =
     (Inr (), case k of PENDING_REPORTS \<Rightarrow> st\<lparr>pending := v\<rparr> | SYNCED_REPORTS \<Rightarrow> st\<lparr>synced := v\<rparr>)"
  by (simp add: setItem_def writes_succeed_def)

lemma setBoth_ok:
  "writes_succeed fs \<Longrightarrow> setBoth fs p s st = (Inr (), st\<lparr>pending := p, synced := s\<rparr>)"
  by (simp add: setBoth_def setItem_ok)

lemma getPendingReports_cases:
  "getPendingReports fs st = (if readFails fs PENDING_REPORTS then [] else pending st)"
  by (simp add: getPendingReports_def getItem_def)

lemma getSyncedReports_cases:
  "getSyncedReports fs st = (if readFails fs SYNCED_REPORTS then [] else synced st)"
  by (simp add: getSyncedReports_def getItem_def)

lemma find_id_Some:
  "find (\<lambda>r. report_id r = i) xs = Some t \<Longrightarrow> t \<in> set xs \<and> report_id t = i"
  by (induction xs) (auto split: if_splits)

lemma saveReport_exclusive:
  assumes "writes_succeed fs" "exclusive st" "report_id r \<notin> set (synced_ids st)"
  shows "\<exists>st'. saveReport fs r st = (Inr (), st') \<and> exclusive st'"
  using assms
  by (auto simp: saveReport_def setItem_ok getPendingReports_cases exclusive_def
      pending_ids_def synced_ids_def distinct_map_filter)

lemma map_update_ids:
  "map report_id (map (\<lambda>r. if report_id r = i then r\<lparr>syncStatus := status\<rparr> else r) xs)
     = map report_id xs"
  by (induction xs) auto

lemma updateReportStatus_exclusive:
  assumes "writes_succeed fs" "exclusive st"
  shows "\<exists>st'. updateReportStatus fs i status st = (Inr (), st') \<and> exclusive st'"
  using assms
  by (auto simp: updateReportStatus_def setItem_ok getPendingReports_cases exclusive_def
      pending_ids_def synced_ids_def map_update_ids simp del: map_map)

lemma markReportSynced_exclusive:
  assumes "writes_succeed fs" "exclusive st"
  shows "\<exists>st'. markReportSynced fs i st = (Inr (), st') \<and> exclusive st'"
proof (cases "find (\<lambda>r. report_id r = i) (getPendingReports fs st)")
  case None
  then show ?thesis
    using assms by (simp add: markReportSynced_def)
next
  case (Some target)
  from find_id_Some [OF Some] have t: "target \<in> set (pending st)" "report_id target = i"
    by (auto simp: getPendingReports_cases split: if_splits)
  then have "i \<in> set (pending_ids st)"
    by (auto simp: pending_ids_def)
  with assms(2) have "i \<notin> set (synced_ids st)"
    by (auto simp: exclusive_def)
  with assms t Some show ?thesis
    by (auto simp: markReportSynced_def setBoth_ok getPendingReports_cases
        getSyncedReports_cases exclusive_def pending_ids_def synced_ids_def distinct_map_filter
        split: if_splits)
qed

lemma deleteReport_exclusive:
  assumes "writes_succeed fs" "exclusive st"
  shows "\<exists>st'. deleteReport fs i st = (Inr (), st') \<and> exclusive st'"
  using assms
  by (auto simp: deleteReport_def setBoth_ok getPendingReports_cases
      getSyncedReports_cases exclusive_def pending_ids_def synced_ids_def distinct_map_filter)

lemma store_step_exclusive:
  assumes "writes_succeed fs" "exclusive st"
    and "case op of SaveReport r \<Rightarrow> report_id r \<notin> set (synced_ids st) | _ \<Rightarrow> True"
  shows "\<exists>st'. store_step fs op st = (Inr (), st') \<and> exclusive st'"
  using assms
  by (cases op)
    (simp_all add: saveReport_exclusive updateReportStatus_exclusive
      markReportSynced_exclusive deleteReport_exclusive)

lemma store_run_exclusive:
  assumes "writes_succeed fs"
  shows "exclusive st \<Longrightarrow> saves_unsynced fs ops st \<Longrightarrow>
    fst (store_run fs ops st) = Inr () \<and> exclusive (snd (store_run fs ops st))"
proof (induction ops arbitrary: st)
  case Nil
  then show ?case by simp
next
  case (Cons op ops)
  from Cons.prems have c: "case op of SaveReport r \<Rightarrow> report_id r \<notin> set (synced_ids st) | _ \<Rightarrow> True"
    by simp
  from store_step_exclusive [OF assms Cons.prems(1) c]
  obtain st' where st': "store_step fs op st = (Inr (), st')" "exclusive st'"
    by blast
  with Cons.prems have "saves_unsynced fs ops st'"
    by simp
  from Cons.IH [OF st'(2) this] st'(1) show ?case
    by simp
qed

lemma exclusive_empty: "exclusive empty_storage"
  by (simp add: exclusive_def empty_storage_def pending_ids_def synced_ids_def)

text \<open>
  C3 (as amended). Starting from empty buckets, after any sequence of \<open>saveReport\<close>,
  \<open>updateReportStatus\<close>, \<open>markReportSynced\<close> and \<open>deleteReport\<close> whose storage writes
  succeed and in which \<open>saveReport\<close> is never given an id that is in the synced bucket
  at that moment, no operation rejects and every id of the store is in exactly one of the
  two buckets, once.
\<close>

theorem bucket_exclusivity:
  assumes "writes_succeed fs" and "saves_unsynced fs ops empty_storage"
  shows "fst (store_run fs ops empty_storage) = Inr () \<and>
         distinct (pending_ids (snd (store_run fs ops empty_storage)) @
                   synced_ids (snd (store_run fs ops empty_storage)))"
  using store_run_exclusive [OF assms(1) exclusive_empty assms(2)]
  by (simp add: exclusive_def)

lemma writes_succeed_reliable: "writes_succeed reliable"
  by (simp add: writes_succeed_def reliable_def)

lemma saveReport_reliable:
  "saveReport reliable r st =
     (Inr (), st\<lparr>pending := filter (\<lambda>x. report_id x \<noteq> report_id r) (pending st) @ [r]\<rparr>)"
  by (simp add: saveReport_def setItem_ok writes_succeed_reliable getPendingReports_cases)
     (simp add: reliable_def)

lemma updateReportStatus_reliable:
  "updateReportStatus reliable i status st =
     (Inr (), st\<lparr>pending := map (\<lambda>r. if report_id r = i then r\<lparr>syncStatus := status\<rparr> else r)
        (pending st)\<rparr>)"
  by (simp add: updateReportStatus_def setItem_ok writes_succeed_reliable getPendingReports_cases)
     (simp add: reliable_def)

lemma markReportSynced_reliable:
  "markReportSynced reliable i st =
     (case find (\<lambda>r. report_id r = i) (pending st) of
        None \<Rightarrow> (Inr (), st)
      | Some target \<Rightarrow>
          (Inr (), st\<lparr>pending := filter (\<lambda>r. report_id r \<noteq> i) (pending st),
                       synced := synced st @ [target\<lparr>syncStatus := Uploaded\<rparr>]\<rparr>))"
  by (simp add: markReportSynced_def setBoth_ok writes_succeed_reliable getPendingReports_cases
      getSyncedReports_cases Let_def split: option.splits)
     (simp add: reliable_def)

lemma deleteReport_reliable:
  "deleteReport reliable i st =
     (Inr (), st\<lparr>pending := filter (\<lambda>r. report_id r \<noteq> i) (pending st),
                  synced := filter (\<lambda>r. report_id r \<noteq> i) (synced st)\<rparr>)"
  by (simp add: deleteReport_def setBoth_ok writes_succeed_reliable getPendingReports_cases
      getSyncedReports_cases)
     (simp add: reliable_def)

lemmas store_reliable =
  saveReport_reliable updateReportStatus_reliable markReportSynced_reliable deleteReport_reliable

theorem bucket_exclusivity_witness:
  "writes_succeed reliable
   \<and> saves_unsynced reliable
       [SaveReport (sighting ''a'' 0 0 clock), SaveReport (sighting ''b'' 0 0 clock),
        SaveReport (sighting ''a'' 1 1 clock), UpdateReportStatus ''a'' Syncing,
        MarkReportSynced ''a'', DeleteReport ''b''] empty_storage
   \<and> pending_ids (snd (store_run reliable
       [SaveReport (sighting ''a'' 0 0 clock), SaveReport (sighting ''b'' 0 0 clock),
        SaveReport (sighting ''a'' 1 1 clock), UpdateReportStatus ''a'' Syncing,
        MarkReportSynced ''a'', DeleteReport ''b''] empty_storage)) = []
   \<and> synced_ids (snd (store_run reliable
       [SaveReport (sighting ''a'' 0 0 clock), SaveReport (sighting ''b'' 0 0 clock),
        SaveReport (sighting ''a'' 1 1 clock), UpdateReportStatus ''a'' Syncing,
        MarkReportSynced ''a'', DeleteReport ''b''] empty_storage)) = [''a'']
   \<and> distinct (pending_ids (snd (store_run reliable
       [SaveReport (sighting ''a'' 0 0 clock), SaveReport (sighting ''b'' 0 0 clock),
        SaveReport (sighting ''a'' 1 1 clock), UpdateReportStatus ''a'' Syncing,
        MarkReportSynced ''a'', DeleteReport ''b''] empty_storage)) @
      synced_ids (snd (store_run reliable
       [SaveReport (sighting ''a'' 0 0 clock), SaveReport (sighting ''b'' 0 0 clock),
        SaveReport (sighting ''a'' 1 1 clock), UpdateReportStatus ''a'' Syncing,
        MarkReportSynced ''a'', DeleteReport ''b''] empty_storage)))"
proof -
  have s: "saves_unsynced reliable
       [SaveReport (sighting ''a'' 0 0 clock), SaveReport (sighting ''b'' 0 0 clock),
        SaveReport (sighting ''a'' 1 1 clock), UpdateReportStatus ''a'' Syncing,
        MarkReportSynced ''a'', DeleteReport ''b''] empty_storage"
    by (simp add: store_reliable empty_storage_def synced_ids_def sighting_def)
  show ?thesis
    using s writes_succeed_reliable bucket_exclusivity [OF writes_succeed_reliable s]
    by (simp add: store_reliable empty_storage_def synced_ids_def pending_ids_def sighting_def)
qed

text \<open>
  Without the two conditions the claim fails. Saving a report again after it was marked
  synced puts its id in both buckets, since \<open>saveReport\<close> looks at the pending bucket
  only; and when the write of the pending bucket is rejected inside
  \<open>markReportSynced\<close>, the write of the synced bucket has still happened.
\<close>

theorem bucket_exclusivity_counterexample:
  "pending_ids (snd (store_run reliable
       [SaveReport (sighting ''a'' 0 0 clock), MarkReportSynced ''a'',
        SaveReport (sighting ''a'' 0 0 clock)] empty_storage)) = [''a'']
   \<and> synced_ids (snd (store_run reliable
       [SaveReport (sighting ''a'' 0 0 clock), MarkReportSynced ''a'',
        SaveReport (sighting ''a'' 0 0 clock)] empty_storage)) = [''a'']
   \<and> \<not> exclusive (snd (store_run reliable
       [SaveReport (sighting ''a'' 0 0 clock), MarkReportSynced ''a'',
        SaveReport (sighting ''a'' 0 0 clock)] empty_storage))
   \<and> \<not> exclusive (snd (store_run flaky
       [SaveReport (sighting ''a'' 0 0 clock), MarkReportSynced ''a''] empty_storage))"
proof -
  have resave: "store_run reliable
       [SaveReport (sighting ''a'' 0 0 clock), MarkReportSynced ''a'',
        SaveReport (sighting ''a'' 0 0 clock)] empty_storage =
     (Inr (), \<lparr> pending = [sighting ''a'' 0 0 clock],
                synced = [(sighting ''a'' 0 0 clock)\<lparr>syncStatus := Uploaded\<rparr>] \<rparr>)"
    by (simp add: store_reliable empty_storage_def sighting_def)
  have torn: "store_run flaky
       [SaveReport (sighting ''a'' 0 0 clock), MarkReportSynced ''a''] empty_storage =
     (Inl StorageError, \<lparr> pending = [sighting ''a'' 0 0 clock],
                synced = [(sighting ''a'' 0 0 clock)\<lparr>syncStatus := Uploaded\<rparr>] \<rparr>)"
    by (simp add: empty_storage_def sighting_def saveReport_def markReportSynced_def
        setBoth_def setItem_def getPendingReports_def getSyncedReports_def getItem_def flaky_def)
  show ?thesis
    unfolding resave torn
    by (simp add: exclusive_def pending_ids_def synced_ids_def sighting_def)
qed

section \<open>The sync pass on a reliable store\<close>

lemma report_id_finalReport: "report_id (finalReport env r) = report_id r"
  by (simp add: finalReport_def split: option.splits sum.splits)

lemma find_distinct_id:
  "distinct (map report_id xs) \<Longrightarrow> r \<in> set xs \<Longrightarrow>
     find (\<lambda>x. report_id x = report_id r) xs = Some r"
  by (induction xs) (auto simp: image_iff)

lemma find_after_status:
  assumes "distinct (map report_id xs)" "r \<in> set xs"
  shows "find (\<lambda>x. report_id x = report_id r)
           (map (\<lambda>x. if report_id x = report_id r then x\<lparr>syncStatus := status\<rparr> else x) xs)
         = Some (r\<lparr>syncStatus := status\<rparr>)"
  using assms by (induction xs) (auto simp: image_iff)

lemma filter_after_status:
  "filter (\<lambda>x. report_id x \<noteq> i)
     (map (\<lambda>x. if report_id x = i then x\<lparr>syncStatus := status\<rparr> else x) xs)
   = filter (\<lambda>x. report_id x \<noteq> i) xs"
  by (induction xs) auto

lemma status_after_status:
  "map (\<lambda>x. if report_id x = i then x\<lparr>syncStatus := t\<rparr> else x)
     (map (\<lambda>x. if report_id x = i then x\<lparr>syncStatus := status\<rparr> else x) xs)
   = map (\<lambda>x. if report_id x = i then x\<lparr>syncStatus := t\<rparr> else x) xs"
  by (induction xs) auto

lemma sync_report_reliable:
  assumes "distinct (map report_id (pending (disk s)))" and "r \<in> set (pending (disk s))"
  shows "sync_report reliable env r s =
     (Inr (),
      if upload_succeeds env r then
        s\<lparr>disk := \<lparr> pending = filter (\<lambda>x. report_id x \<noteq> report_id r) (pending (disk s)),
                    synced = synced (disk s) @ [r\<lparr>syncStatus := Uploaded\<rparr>] \<rparr>,
          notified := notified s @ [r\<lparr>syncStatus := Syncing\<rparr>,
                                    (finalReport env r)\<lparr>syncStatus := Uploaded\<rparr>],
          uploads := uploads s @ [payload_of (finalReport env r)]\<rparr>
      else
        s\<lparr>disk := \<lparr> pending = map (\<lambda>x. if report_id x = report_id r
                                         then x\<lparr>syncStatus := Failed\<rparr> else x) (pending (disk s)),
                    synced = synced (disk s) \<rparr>,
          notified := notified s @ [r\<lparr>syncStatus := Syncing\<rparr>, r\<lparr>syncStatus := Failed\<rparr>],
          uploads := uploads s @ [payload_of (finalReport env r)]\<rparr>)"
proof (cases "uploadReport env (payload_of (finalReport env r))")
  case (Inl e)
  then have no: "\<not> upload_succeeds env r"
    by (simp add: upload_succeeds_def)
  show ?thesis
    unfolding sync_report_def
    by (simp add: no Inl Let_def updateReportStatus_reliable sync_failed_def notifyListeners_def
        status_after_status)
next
  case (Inr u)
  then have yes: "upload_succeeds env r"
    by (simp add: upload_succeeds_def)
  show ?thesis
    unfolding sync_report_def
    by (simp add: yes Inr Let_def updateReportStatus_reliable markReportSynced_reliable
        notifyListeners_def report_id_finalReport find_after_status [OF assms]
        filter_after_status)
qed

lemma finalReport_status:
  "finalReport env (x\<lparr>syncStatus := t\<rparr>) = (finalReport env x)\<lparr>syncStatus := t\<rparr>"
  by (cases "prediction x"; cases "predictSpecies env (imageUri x)") (simp_all add: finalReport_def)

lemma payload_of_status: "payload_of (y\<lparr>syncStatus := t\<rparr>) = payload_of y"
  by (simp add: payload_of_def)

lemma upload_succeeds_status [simp]:
  "upload_succeeds env (x\<lparr>syncStatus := t\<rparr>) = upload_succeeds env x"
  by (simp only: upload_succeeds_def finalReport_status payload_of_status)

lemma same_id_same_report:
  "distinct (map report_id xs) \<Longrightarrow> x \<in> set xs \<Longrightarrow> y \<in> set xs \<Longrightarrow>
     report_id x = report_id y \<Longrightarrow> x = y"
  by (auto simp: distinct_map dest: inj_onD)

text \<open>The pending bucket after a pass over the reports whose ids are in \<open>D\<close>.\<close>

lemma pending_after_uploaded:
  assumes d: "distinct (map report_id P)" and r: "r \<in> set P"
    and ok: "upload_succeeds env r" and fresh: "report_id r \<notin> D"
  shows "map (\<lambda>x. if report_id x \<in> D then x\<lparr>syncStatus := Failed\<rparr> else x)
           (filter (\<lambda>x. \<not> (report_id x \<in> D \<and> upload_succeeds env x))
              (filter (\<lambda>x. report_id x \<noteq> report_id r) P))
       = map (\<lambda>x. if report_id x \<in> insert (report_id r) D then x\<lparr>syncStatus := Failed\<rparr> else x)
           (filter (\<lambda>x. \<not> (report_id x \<in> insert (report_id r) D \<and> upload_succeeds env x)) P)"
proof -
  have same: "x = r" if "x \<in> set P" "report_id x = report_id r" for x
    using same_id_same_report [OF d that(1) r that(2)] .
  have f: "filter (\<lambda>x. \<not> (report_id x \<in> D \<and> upload_succeeds env x))
              (filter (\<lambda>x. report_id x \<noteq> report_id r) P)
      = filter (\<lambda>x. \<not> (report_id x \<in> insert (report_id r) D \<and> upload_succeeds env x)) P"
    unfolding filter_filter
    by (rule filter_cong [OF refl]) (use same ok in auto)
  show ?thesis
    unfolding f
    by (rule map_cong [OF refl]) (use same ok in auto)
qed

lemma pending_after_failed:
  assumes d: "distinct (map report_id P)" and r: "r \<in> set P"
    and ko: "\<not> upload_succeeds env r" and fresh: "report_id r \<notin> D"
  shows "map (\<lambda>x. if report_id x \<in> D then x\<lparr>syncStatus := Failed\<rparr> else x)
           (filter (\<lambda>x. \<not> (report_id x \<in> D \<and> upload_succeeds env x))
              (map (\<lambda>x. if report_id x = report_id r then x\<lparr>syncStatus := Failed\<rparr> else x) P))
       = map (\<lambda>x. if report_id x \<in> insert (report_id r) D then x\<lparr>syncStatus := Failed\<rparr> else x)
           (filter (\<lambda>x. \<not> (report_id x \<in> insert (report_id r) D \<and> upload_succeeds env x)) P)"
proof -
  have same: "x = r" if "x \<in> set P" "report_id x = report_id r" for x
    using same_id_same_report [OF d that(1) r that(2)] .
  have f: "filter (\<lambda>x. \<not> (report_id x \<in> D \<and> upload_succeeds env x))
              (map (\<lambda>x. if report_id x = report_id r then x\<lparr>syncStatus := Failed\<rparr> else x) P)
      = map (\<lambda>x. if report_id x = report_id r then x\<lparr>syncStatus := Failed\<rparr> else x)
          (filter (\<lambda>x. \<not> (report_id x \<in> insert (report_id r) D \<and> upload_succeeds env x)) P)"
    unfolding filter_map
    by (rule arg_cong [where f = "map _"], rule filter_cong [OF refl])
       (use same ko fresh in \<open>auto simp: o_def\<close>)
  show ?thesis
    unfolding f map_map
    by (rule map_cong [OF refl]) (use fresh in \<open>auto simp: o_def\<close>)
qed

lemma sync_all_reliable:
  "distinct (map report_id rs) \<Longrightarrow> distinct (map report_id (pending (disk s))) \<Longrightarrow>
   set rs \<subseteq> set (pending (disk s)) \<Longrightarrow>
   sync_all reliable env rs s =
     (Inr (),
      s\<lparr>disk := \<lparr> pending =
            map (\<lambda>x. if report_id x \<in> report_id ` set rs then x\<lparr>syncStatus := Failed\<rparr> else x)
              (filter (\<lambda>x. \<not> (report_id x \<in> report_id ` set rs \<and> upload_succeeds env x))
                 (pending (disk s))),
          synced = synced (disk s) @
            map (\<lambda>x. x\<lparr>syncStatus := Uploaded\<rparr>) (filter (upload_succeeds env) rs) \<rparr>,
        notified := notified s @
          concat (map (\<lambda>r. [r\<lparr>syncStatus := Syncing\<rparr>,
                             if upload_succeeds env r
                             then (finalReport env r)\<lparr>syncStatus := Uploaded\<rparr>
                             else r\<lparr>syncStatus := Failed\<rparr>]) rs),
        uploads := uploads s @ map (\<lambda>r. payload_of (finalReport env r)) rs\<rparr>)"
proof (induction rs arbitrary: s)
  case Nil
  then show ?case by simp
next
  case (Cons r rs)
  let ?P = "pending (disk s)"
  from Cons.prems have r: "r \<in> set ?P" and rs: "set rs \<subseteq> set ?P"
    and fresh: "report_id r \<notin> report_id ` set rs" and drs: "distinct (map report_id rs)"
    by auto
  note step = sync_report_reliable [OF Cons.prems(2) r, of env]
  have others: "report_id x \<noteq> report_id r" if "x \<in> set rs" for x
    using fresh that by (metis imageI)
  show ?case
  proof (cases "upload_succeeds env r")
    case True
    let ?s1 = "s\<lparr>disk := \<lparr> pending = filter (\<lambda>x. report_id x \<noteq> report_id r) ?P,
                    synced = synced (disk s) @ [r\<lparr>syncStatus := Uploaded\<rparr>] \<rparr>,
          notified := notified s @ [r\<lparr>syncStatus := Syncing\<rparr>,
                                    (finalReport env r)\<lparr>syncStatus := Uploaded\<rparr>],
          uploads := uploads s @ [payload_of (finalReport env r)]\<rparr>"
    have d1: "distinct (map report_id (pending (disk ?s1)))"
      using Cons.prems(2) by (simp add: distinct_map_filter)
    have sub1: "set rs \<subseteq> set (pending (disk ?s1))"
      using rs others by auto
    show ?thesis
      using True step Cons.IH [OF drs d1 sub1]
        pending_after_uploaded [OF Cons.prems(2) r True fresh]
      by simp
  next
    case False
    let ?s1 = "s\<lparr>disk := \<lparr> pending = map (\<lambda>x. if report_id x = report_id r
                                         then x\<lparr>syncStatus := Failed\<rparr> else x) ?P,
                    synced = synced (disk s) \<rparr>,
          notified := notified s @ [r\<lparr>syncStatus := Syncing\<rparr>, r\<lparr>syncStatus := Failed\<rparr>],
          uploads := uploads s @ [payload_of (finalReport env r)]\<rparr>"
    have d1: "distinct (map report_id (pending (disk ?s1)))"
      using Cons.prems(2) by (simp add: map_update_ids del: map_map)
    have sub1: "set rs \<subseteq> set (pending (disk ?s1))"
    proof
      fix x assume x: "x \<in> set rs"
      with rs have "x \<in> set ?P" by auto
      moreover have "(if report_id x = report_id r then x\<lparr>syncStatus := Failed\<rparr> else x) = x"
        using others [OF x] by simp
      ultimately show "x \<in> set (pending (disk ?s1))"
        by (simp add: image_iff) (metis others x)
    qed
    show ?thesis
      using False step Cons.IH [OF drs d1 sub1]
        pending_after_failed [OF Cons.prems(2) r False fresh]
      by simp
  qed
qed

lemma getPendingReports_reliable: "getPendingReports reliable st = pending st"
  by (simp add: getPendingReports_cases reliable_def)

lemma selected_id_iff:
  assumes "distinct (map report_id P)" "x \<in> set P"
  shows "report_id x \<in> report_id ` set (filter selected P) \<longleftrightarrow> selected x"
proof
  assume "report_id x \<in> report_id ` set (filter selected P)"
  then obtain y where y: "y \<in> set P" "selected y" "report_id x = report_id y"
    by auto
  with same_id_same_report [OF assms(1) assms(2) y(1) y(3)] show "selected x"
    by simp
next
  assume "selected x"
  with assms(2) show "report_id x \<in> report_id ` set (filter selected P)"
    by auto
qed

lemma runSync_reliable:
  assumes idle: "\<not> isSyncing s" and online: "isConnected env"
    and d: "distinct (pending_ids (disk s))"
  shows "runSync reliable env s =
     (Inr (),
      s\<lparr>disk := \<lparr> pending =
            map (\<lambda>r. if selected r then r\<lparr>syncStatus := Failed\<rparr> else r)
              (filter (\<lambda>r. \<not> (selected r \<and> upload_succeeds env r)) (pending (disk s))),
          synced = synced (disk s) @
            map (\<lambda>r. r\<lparr>syncStatus := Uploaded\<rparr>)
              (filter (\<lambda>r. selected r \<and> upload_succeeds env r) (pending (disk s))) \<rparr>,
        notified := notified s @
          concat (map (\<lambda>r. [r\<lparr>syncStatus := Syncing\<rparr>,
                             if upload_succeeds env r
                             then (finalReport env r)\<lparr>syncStatus := Uploaded\<rparr>
                             else r\<lparr>syncStatus := Failed\<rparr>])
                    (filter selected (pending (disk s)))),
        uploads := uploads s @
          map (\<lambda>r. payload_of (finalReport env r)) (filter selected (pending (disk s)))\<rparr>)"
proof -
  let ?P = "pending (disk s)"
  let ?s1 = "s\<lparr>isSyncing := True\<rparr>"
  from d have dP: "distinct (map report_id ?P)"
    by (simp add: pending_ids_def)
  have d1: "distinct (map report_id (pending (disk ?s1)))"
    using dP by simp
  have drs: "distinct (map report_id (filter selected ?P))"
    using dP by (simp add: distinct_map_filter)
  have sub: "set (filter selected ?P) \<subseteq> set (pending (disk ?s1))"
    by auto
  have f: "filter (\<lambda>x. \<not> (report_id x \<in> report_id ` set (filter selected ?P) \<and>
                          upload_succeeds env x)) ?P
      = filter (\<lambda>r. \<not> (selected r \<and> upload_succeeds env r)) ?P"
    by (rule filter_cong [OF refl]) (use selected_id_iff [OF dP] in simp)
  have m: "map (\<lambda>x. if report_id x \<in> report_id ` set (filter selected ?P)
                     then x\<lparr>syncStatus := Failed\<rparr> else x)
             (filter (\<lambda>r. \<not> (selected r \<and> upload_succeeds env r)) ?P)
      = map (\<lambda>r. if selected r then r\<lparr>syncStatus := Failed\<rparr> else r)
             (filter (\<lambda>r. \<not> (selected r \<and> upload_succeeds env r)) ?P)"
    by (rule map_cong [OF refl]) (use selected_id_iff [OF dP] in simp)
  have u: "filter (upload_succeeds env) (filter selected ?P)
      = filter (\<lambda>r. selected r \<and> upload_succeeds env r) ?P"
    by simp
  have "sync_all reliable env (filter selected ?P) ?s1 =
     (Inr (),
      ?s1\<lparr>disk := \<lparr> pending =
            map (\<lambda>r. if selected r then r\<lparr>syncStatus := Failed\<rparr> else r)
              (filter (\<lambda>r. \<not> (selected r \<and> upload_succeeds env r)) ?P),
          synced = synced (disk s) @
            map (\<lambda>r. r\<lparr>syncStatus := Uploaded\<rparr>)
              (filter (\<lambda>r. selected r \<and> upload_succeeds env r) ?P) \<rparr>,
        notified := notified s @
          concat (map (\<lambda>r. [r\<lparr>syncStatus := Syncing\<rparr>,
                             if upload_succeeds env r
                             then (finalReport env r)\<lparr>syncStatus := Uploaded\<rparr>
                             else r\<lparr>syncStatus := Failed\<rparr>])
                    (filter selected ?P)),
        uploads := uploads s @
          map (\<lambda>r. payload_of (finalReport env r)) (filter selected ?P)\<rparr>)"
    unfolding sync_all_reliable [OF drs d1 sub]
    using f m u by simp
  then show ?thesis
    using idle online by (simp add: runSync_def getPendingReports_reliable Let_def)
qed

lemma runSync_selected_outcome:
  assumes "\<not> isSyncing s" and "isConnected env" and "distinct (pending_ids (disk s))"
    and r: "r \<in> set (pending (disk s))" and sel: "selected r"
  shows "if upload_succeeds env r
           then r\<lparr>syncStatus := Uploaded\<rparr> \<in> set (synced (disk (snd (runSync reliable env s))))
             \<and> report_id r \<notin> set (pending_ids (disk (snd (runSync reliable env s))))
           else r\<lparr>syncStatus := Failed\<rparr> \<in> set (pending (disk (snd (runSync reliable env s))))"
proof (cases "upload_succeeds env r")
  case True
  note run = runSync_reliable [OF assms(1-3)]
  from assms(3) have dP: "distinct (map report_id (pending (disk s)))"
    by (simp add: pending_ids_def)
  have "x \<noteq> r" if "x \<in> set (pending (disk s))" "\<not> (selected x \<and> upload_succeeds env x)" for x
    using that sel True by auto
  then have "report_id r \<notin> report_id `
      set (filter (\<lambda>r. \<not> (selected r \<and> upload_succeeds env r)) (pending (disk s)))"
    using same_id_same_report [OF dP r] by auto
  moreover have "report_id (if selected x then x\<lparr>syncStatus := Failed\<rparr> else x) = report_id x" for x
    by simp
  ultimately have "report_id r \<notin> set (pending_ids (disk (snd (runSync reliable env s))))"
    unfolding run pending_ids_def by (auto simp: image_iff)
  moreover have "r\<lparr>syncStatus := Uploaded\<rparr> \<in> set (synced (disk (snd (runSync reliable env s))))"
    unfolding run using r sel True by (auto simp: image_iff)
  ultimately show ?thesis using True by simp
next
  case False
  note run = runSync_reliable [OF assms(1-3)]
  have "r\<lparr>syncStatus := Failed\<rparr> \<in> set (pending (disk (snd (runSync reliable env s))))"
    unfolding run using r sel False by (auto simp: image_iff)
  with False show ?thesis by simp
qed

text \<open>
  C6 (as amended). One pass over a store whose reads and writes succeed, started while no
  pass runs and the device is online, on a pending bucket without repeated ids: the pass
  returns without an exception; every selected record whose upload fails stays in the
  pending bucket with state failed, every selected record whose upload succeeds is
  appended to the synced bucket with state uploaded and leaves the pending bucket,
  whatever happened to the records before it; the records that were not selected are
  untouched.
\<close>

theorem sync_isolation:
  assumes "\<not> isSyncing s" and "isConnected env" and "distinct (pending_ids (disk s))"
  shows "fst (runSync reliable env s) = Inr ()
    \<and> pending (disk (snd (runSync reliable env s))) =
        map (\<lambda>r. if selected r then r\<lparr>syncStatus := Failed\<rparr> else r)
          (filter (\<lambda>r. \<not> (selected r \<and> upload_succeeds env r)) (pending (disk s)))
    \<and> synced (disk (snd (runSync reliable env s))) =
        synced (disk s) @
        map (\<lambda>r. r\<lparr>syncStatus := Uploaded\<rparr>)
          (filter (\<lambda>r. selected r \<and> upload_succeeds env r) (pending (disk s)))
    \<and> (\<forall>r \<in> set (pending (disk s)). selected r \<longrightarrow>
          (if upload_succeeds env r
           then r\<lparr>syncStatus := Uploaded\<rparr> \<in> set (synced (disk (snd (runSync reliable env s))))
             \<and> report_id r \<notin> set (pending_ids (disk (snd (runSync reliable env s))))
           else r\<lparr>syncStatus := Failed\<rparr> \<in> set (pending (disk (snd (runSync reliable env s))))))
    \<and> \<not> isSyncing (snd (runSync reliable env s))"
proof -
  note run = runSync_reliable [OF assms]
  have c1: "fst (runSync reliable env s) = Inr ()"
    by (simp add: run)
  have c2: "pending (disk (snd (runSync reliable env s))) =
        map (\<lambda>r. if selected r then r\<lparr>syncStatus := Failed\<rparr> else r)
          (filter (\<lambda>r. \<not> (selected r \<and> upload_succeeds env r)) (pending (disk s)))"
    by (simp add: run)
  have c3: "synced (disk (snd (runSync reliable env s))) =
        synced (disk s) @
        map (\<lambda>r. r\<lparr>syncStatus := Uploaded\<rparr>)
          (filter (\<lambda>r. selected r \<and> upload_succeeds env r) (pending (disk s)))"
    by (simp add: run)
  have c4: "\<forall>r \<in> set (pending (disk s)). selected r \<longrightarrow>
          (if upload_succeeds env r
           then r\<lparr>syncStatus := Uploaded\<rparr> \<in> set (synced (disk (snd (runSync reliable env s))))
             \<and> report_id r \<notin> set (pending_ids (disk (snd (runSync reliable env s))))
           else r\<lparr>syncStatus := Failed\<rparr> \<in> set (pending (disk (snd (runSync reliable env s)))))"
    using runSync_selected_outcome [OF assms] by blast
  have c5: "\<not> isSyncing (snd (runSync reliable env s))"
    using assms(1) by (simp add: run)
  show ?thesis
    by (intro conjI c1 c2 c3 c4 c5)
qed

theorem sync_isolation_witness:
  "\<not> isSyncing three_pending \<and> isConnected second_fails
   \<and> distinct (pending_ids (disk three_pending))
   \<and> fst (runSync reliable second_fails three_pending) = Inr ()
   \<and> pending (disk (snd (runSync reliable second_fails three_pending))) =
       [(sighting ''b'' 0 0 clock)\<lparr>syncStatus := Failed\<rparr>]
   \<and> synced (disk (snd (runSync reliable second_fails three_pending))) =
       [(sighting ''a'' 0 0 clock)\<lparr>syncStatus := Uploaded\<rparr>,
        (sighting ''c'' 0 0 clock)\<lparr>syncStatus := Uploaded\<rparr>]
   \<and> \<not> isSyncing (snd (runSync reliable second_fails three_pending))"
proof -
  have h: "\<not> isSyncing three_pending" "isConnected second_fails"
    "distinct (pending_ids (disk three_pending))"
    by (simp_all add: three_pending_def second_fails_def pending_ids_def sighting_def)
  have u: "upload_succeeds second_fails (sighting ''a'' 0 0 clock)"
    "\<not> upload_succeeds second_fails (sighting ''b'' 0 0 clock)"
    "upload_succeeds second_fails (sighting ''c'' 0 0 clock)"
    by (simp_all add: upload_succeeds_def second_fails_def finalReport_def payload_of_def
        sighting_def)
  have sel: "selected (sighting i 0 0 clock)" for i
    by (simp add: selected_def sighting_def)
  show ?thesis
    using h sync_isolation [OF h]
    by (simp add: three_pending_def u sel)
qed

text \<open>
  Without the condition on the store the claim fails: when the write that records the
  failed state is rejected, the rejection leaves \<open>runSync\<close> (both \<open>updateReportStatus\<close>
  calls outside the inner \<open>try\<close> are awaited with only the \<open>finally\<close> around them), the
  record whose upload failed stays in state syncing, and the records after it are not
  processed.
\<close>

theorem sync_isolation_counterexample:
  "\<not> isSyncing three_pending \<and> isConnected second_fails
   \<and> distinct (pending_ids (disk three_pending))
   \<and> \<not> upload_succeeds second_fails (sighting ''b'' 0 0 clock)
   \<and> fst (runSync rejects_failed second_fails three_pending) = Inl StorageError
   \<and> map report_id (pending (disk (snd (runSync rejects_failed second_fails three_pending))))
       = [''b'', ''c'']
   \<and> map syncStatus (pending (disk (snd (runSync rejects_failed second_fails three_pending))))
       = [Syncing, Pending]
   \<and> map report_id (synced (disk (snd (runSync rejects_failed second_fails three_pending))))
       = [''a'']"
proof -
  have wr: "writeFails rejects_failed k v = (Failed \<in> set (map syncStatus v))" for k v
    by (simp add: rejects_failed_def)
  have rd: "readFails rejects_failed k = False" for k
    by (simp add: rejects_failed_def)
  have u: "\<not> upload_succeeds second_fails (sighting ''b'' 0 0 clock)"
    by (simp add: upload_succeeds_def second_fails_def finalReport_def payload_of_def sighting_def)
  have run: "runSync rejects_failed second_fails three_pending =
     (Inl StorageError,
      \<lparr> disk = \<lparr> pending = [(sighting ''b'' 0 0 clock)\<lparr>syncStatus := Syncing\<rparr>,
                            sighting ''c'' 0 0 clock],
                 synced = [(sighting ''a'' 0 0 clock)\<lparr>syncStatus := Uploaded\<rparr>] \<rparr>,
        isSyncing = False,
        notified = [(sighting ''a'' 0 0 clock)\<lparr>syncStatus := Syncing\<rparr>,
                    (sighting ''a'' 0 0 clock)\<lparr>syncStatus := Uploaded\<rparr>,
                    (sighting ''b'' 0 0 clock)\<lparr>syncStatus := Syncing\<rparr>],
        uploads = [payload_of (sighting ''a'' 0 0 clock), payload_of (sighting ''b'' 0 0 clock)] \<rparr>)"
    by (simp add: runSync_def Let_def three_pending_def second_fails_def selected_def
        getPendingReports_def getSyncedReports_def getItem_def rd wr sync_report_def
        sync_failed_def updateReportStatus_def markReportSynced_def setBoth_def setItem_def
        notifyListeners_def finalReport_def payload_of_def sighting_def)
  show ?thesis
    unfolding run
    by (simp add: u) (simp add: three_pending_def second_fails_def pending_ids_def sighting_def)
qed

lemma finalReport_classified:
  "prediction r = None \<Longrightarrow> predictSpecies env (imageUri r) = Inr p \<Longrightarrow>
     finalReport env r = r\<lparr>prediction := Some p\<rparr>"
  by (simp add: finalReport_def)

text \<open>
  C9. A selected record without a prediction, for which classification and upload both
  succeed: the payload handed to the gateway carries the new prediction, while the copy
  that \<open>markReportSynced\<close> appends to the synced bucket is the stored record with state
  uploaded, whose prediction is still null; the id leaves the pending bucket. No record of
  the store differs after the pass from a record of the store before it in anything but
  its syncStatus, so the prediction is written nowhere.
\<close>

theorem prediction_not_persisted:
  assumes "\<not> isSyncing s" and "isConnected env" and "distinct (pending_ids (disk s))"
    and r: "r \<in> set (pending (disk s))" and sel: "selected r"
    and none: "prediction r = None"
    and pred: "predictSpecies env (imageUri r) = Inr p"
    and up: "uploadReport env (payload_of (r\<lparr>prediction := Some p\<rparr>)) = Inr ()"
  shows "payload_of (r\<lparr>prediction := Some p\<rparr>) \<in> set (uploads (snd (runSync reliable env s)))
    \<and> pl_prediction (payload_of (r\<lparr>prediction := Some p\<rparr>)) = Some p
    \<and> r\<lparr>syncStatus := Uploaded\<rparr> \<in> set (synced (disk (snd (runSync reliable env s))))
    \<and> prediction (r\<lparr>syncStatus := Uploaded\<rparr>) = None
    \<and> report_id r \<notin> set (pending_ids (disk (snd (runSync reliable env s))))
    \<and> (\<forall>x \<in> set (pending (disk (snd (runSync reliable env s)))) \<union>
               set (synced (disk (snd (runSync reliable env s)))).
          \<exists>y \<in> set (pending (disk s)) \<union> set (synced (disk s)).
            x = y\<lparr>syncStatus := syncStatus x\<rparr>)"
proof -
  note run = runSync_reliable [OF assms(1-3)]
  have fin: "finalReport env r = r\<lparr>prediction := Some p\<rparr>"
    by (rule finalReport_classified [OF none pred])
  have ok: "upload_succeeds env r"
    by (simp add: upload_succeeds_def fin up)
  have c1: "payload_of (r\<lparr>prediction := Some p\<rparr>) \<in> set (uploads (snd (runSync reliable env s)))"
  proof -
    have "payload_of (finalReport env r) \<in>
        (\<lambda>r. payload_of (finalReport env r)) ` set (filter selected (pending (disk s)))"
      using r sel by (intro imageI) simp
    then show ?thesis
      unfolding run fin by simp
  qed
  have c2: "pl_prediction (payload_of (r\<lparr>prediction := Some p\<rparr>)) = Some p"
    by (simp add: payload_of_def)
  from runSync_selected_outcome [OF assms(1-3) r sel] ok
  have c3: "r\<lparr>syncStatus := Uploaded\<rparr> \<in> set (synced (disk (snd (runSync reliable env s))))"
    and c5: "report_id r \<notin> set (pending_ids (disk (snd (runSync reliable env s))))"
    by auto
  have c4: "prediction (r\<lparr>syncStatus := Uploaded\<rparr>) = None"
    using none by simp
  have pl: "pending (disk (snd (runSync reliable env s))) =
        map (\<lambda>r. if selected r then r\<lparr>syncStatus := Failed\<rparr> else r)
          (filter (\<lambda>r. \<not> (selected r \<and> upload_succeeds env r)) (pending (disk s)))"
    by (simp add: run)
  have sl: "synced (disk (snd (runSync reliable env s))) =
        synced (disk s) @
        map (\<lambda>r. r\<lparr>syncStatus := Uploaded\<rparr>)
          (filter (\<lambda>r. selected r \<and> upload_succeeds env r) (pending (disk s)))"
    by (simp add: run)
  have p': "set (pending (disk (snd (runSync reliable env s)))) =
        (\<lambda>r. if selected r then r\<lparr>syncStatus := Failed\<rparr> else r) `
          set (filter (\<lambda>r. \<not> (selected r \<and> upload_succeeds env r)) (pending (disk s)))"
    unfolding pl by (simp only: set_map)
  have s': "set (synced (disk (snd (runSync reliable env s)))) =
        set (synced (disk s)) \<union>
        (\<lambda>r. r\<lparr>syncStatus := Uploaded\<rparr>) `
          set (filter (\<lambda>r. selected r \<and> upload_succeeds env r) (pending (disk s)))"
    unfolding sl by (simp only: set_map set_append)
  have c6: "\<forall>x \<in> set (pending (disk (snd (runSync reliable env s)))) \<union>
               set (synced (disk (snd (runSync reliable env s)))).
          \<exists>y \<in> set (pending (disk s)) \<union> set (synced (disk s)).
            x = y\<lparr>syncStatus := syncStatus x\<rparr>"
  proof
    fix x
    assume "x \<in> set (pending (disk (snd (runSync reliable env s)))) \<union>
               set (synced (disk (snd (runSync reliable env s))))"
    then consider
        y where "y \<in> set (pending (disk s))" "x = (if selected y then y\<lparr>syncStatus := Failed\<rparr> else y)"
      | "x \<in> set (synced (disk s))"
      | y where "y \<in> set (pending (disk s))" "x = y\<lparr>syncStatus := Uploaded\<rparr>"
      unfolding p' s' by (elim UnE imageE) (simp_all, blast+)
    then show "\<exists>y \<in> set (pending (disk s)) \<union> set (synced (disk s)).
            x = y\<lparr>syncStatus := syncStatus x\<rparr>"
    proof cases
      case 1
      then have "x = y\<lparr>syncStatus := syncStatus x\<rparr>" by simp
      with 1(1) show ?thesis by blast
    next
      case 2
      have "x = x\<lparr>syncStatus := syncStatus x\<rparr>" by simp
      with 2 show ?thesis by blast
    next
      case 3
      then have "x = y\<lparr>syncStatus := syncStatus x\<rparr>" by simp
      with 3(1) show ?thesis by blast
    qed
  qed
  show ?thesis
    by (intro conjI c1 c2 c3 c4 c5 c6)
qed

theorem prediction_not_persisted_witness:
  "\<not> isSyncing one_unclassified \<and> isConnected classifies
   \<and> distinct (pending_ids (disk one_unclassified))
   \<and> unclassified \<in> set (pending (disk one_unclassified)) \<and> selected unclassified
   \<and> prediction unclassified = None
   \<and> predictSpecies classifies (imageUri unclassified) = Inr kudzu
   \<and> uploadReport classifies (payload_of (unclassified\<lparr>prediction := Some kudzu\<rparr>)) = Inr ()
   \<and> payload_of (unclassified\<lparr>prediction := Some kudzu\<rparr>)
        \<in> set (uploads (snd (runSync reliable classifies one_unclassified)))
   \<and> pl_prediction (payload_of (unclassified\<lparr>prediction := Some kudzu\<rparr>)) = Some kudzu
   \<and> unclassified\<lparr>syncStatus := Uploaded\<rparr>
        \<in> set (synced (disk (snd (runSync reliable classifies one_unclassified))))
   \<and> prediction (unclassified\<lparr>syncStatus := Uploaded\<rparr>) = None
   \<and> report_id unclassified
        \<notin> set (pending_ids (disk (snd (runSync reliable classifies one_unclassified))))"
proof -
  have h: "\<not> isSyncing one_unclassified" "isConnected classifies"
    "distinct (pending_ids (disk one_unclassified))"
    "unclassified \<in> set (pending (disk one_unclassified))" "selected unclassified"
    "prediction unclassified = None"
    "predictSpecies classifies (imageUri unclassified) = Inr kudzu"
    "uploadReport classifies (payload_of (unclassified\<lparr>prediction := Some kudzu\<rparr>)) = Inr ()"
    by (simp_all add: one_unclassified_def classifies_def pending_ids_def unclassified_def
        selected_def sighting_def)
  from prediction_not_persisted [OF h] h show ?thesis
    by (intro conjI) simp_all
qed

section \<open>The guard of the sync pass\<close>

text \<open>
  Run without interleaving, an invocation that finds the flag set changes nothing, and
  an invocation that finds it clear leaves it clear, also when the pass rejects.
\<close>

lemma runSync_while_syncing: "isSyncing s \<Longrightarrow> runSync fs env s = (Inr (), s)"
  by (simp add: runSync_def)

lemma runSync_offline: "\<not> isConnected env \<Longrightarrow> runSync fs env s = (Inr (), s)"
  by (simp add: runSync_def)

lemma runSync_releases_flag: "\<not> isSyncing s \<Longrightarrow> \<not> isSyncing (snd (runSync fs env s))"
  by (simp add: runSync_def Let_def split: prod.splits)

lemma runSync_rejects_and_releases:
  "runSync read_only second_fails three_pending = (Inl StorageError, three_pending)"
  by (simp add: runSync_def Let_def second_fails_def three_pending_def read_only_def
      getPendingReports_def getItem_def selected_def sighting_def sync_report_def
      updateReportStatus_def setItem_def)

lemma guard_invoke_while_running:
  "flag g \<Longrightarrow> guard_step Invoke g = g\<lparr>invocations := invocations g @ [Returned]\<rparr>"
  by simp

text \<open>
  C8. The flag is read before \<open>await NetInfo.fetch()\<close> and set after it. Two invocations
  made before the first connectivity answer arrives both find the flag clear and both
  enter the pass; when the first pass ends it clears the flag while the second is still
  running.
\<close>

theorem guard_two_passes_in_flight:
  "guard_run [Invoke, Invoke, NetInfoResolves 0 True, NetInfoResolves 1 True] idle
     = \<lparr> flag = True, invocations = [InPass, InPass] \<rparr>
   \<and> in_flight (guard_run [Invoke, Invoke, NetInfoResolves 0 True, NetInfoResolves 1 True] idle) = 2
   \<and> guard_run [Invoke, Invoke, NetInfoResolves 0 True, NetInfoResolves 1 True, PassEnds 0] idle
     = \<lparr> flag = False, invocations = [Returned, InPass] \<rparr>"
  by (simp add: guard_run_def idle_def in_flight_def)

section \<open>The outbreak detector: zones\<close>

lemma haversine_same_lon_arc:
  assumes "\<bar>lat2 - lat1\<bar> < 180"
  shows "haversineDistanceKm lat1 lon lat2 lon = (6371 / 180) * (\<bar>lat2 - lat1\<bar> * pi)"
  using haversine_same_lon [OF assms] by (simp add: toRad_def)

lemma within_2km_same_lon:
  assumes "\<bar>lat2 - lat1\<bar> \<le> 0.014"
  shows "haversineDistanceKm lat1 lon lat2 lon \<le> 2"
proof -
  have "\<bar>lat2 - lat1\<bar> < 180" using assms by simp
  then have "haversineDistanceKm lat1 lon lat2 lon = (6371 / 180) * (\<bar>lat2 - lat1\<bar> * pi)"
    by (rule haversine_same_lon_arc)
  also have "\<bar>lat2 - lat1\<bar> * pi \<le> 0.014 * 4"
    using assms pi_less_4 by (intro mult_mono) simp_all
  finally show ?thesis by simp
qed

lemma near_same_lon:
  assumes "\<bar>lat2 - lat1\<bar> \<le> 0.0317"
  shows "haversineDistanceKm lat1 lon lat2 lon \<le> 9 / 2"
proof -
  have "\<bar>lat2 - lat1\<bar> < 180" using assms by simp
  then have "haversineDistanceKm lat1 lon lat2 lon = (6371 / 180) * (\<bar>lat2 - lat1\<bar> * pi)"
    by (rule haversine_same_lon_arc)
  also have "\<bar>lat2 - lat1\<bar> * pi \<le> 0.0317 * 4"
    using assms pi_less_4 by (intro mult_mono) simp_all
  finally show ?thesis by simp
qed

lemma far_same_lon:
  assumes "0.06 \<le> \<bar>lat2 - lat1\<bar>" and "\<bar>lat2 - lat1\<bar> < 180"
  shows "11 / 2 < haversineDistanceKm lat1 lon lat2 lon"
proof -
  have "0.06 * 3 \<le> \<bar>lat2 - lat1\<bar> * pi"
    using assms(1) pi_ge_three by (intro mult_mono) simp_all
  then have "11 / 2 < (6371 / 180) * (\<bar>lat2 - lat1\<bar> * pi)"
    by simp
  also have "\<dots> = haversineDistanceKm lat1 lon lat2 lon"
    using haversine_same_lon_arc [OF assms(2)] by simp
  finally show ?thesis .
qed

lemma accurate_exact: "accurate exact"
  by (simp add: accurate_def exact_def)

lemma accurate_within:
  assumes "accurate ar" and "\<bar>lat2 - lat1\<bar> \<le> 0.0317"
  shows "num_haversine ar lat1 lon lat2 lon \<le> RADIUS_KM"
proof -
  from assms(1) have "\<bar>num_haversine ar lat1 lon lat2 lon - haversineDistanceKm lat1 lon lat2 lon\<bar> \<le> 1 / 2"
    unfolding accurate_def by blast
  with near_same_lon [OF assms(2), of lon] show ?thesis
    unfolding RADIUS_KM_def by linarith
qed

lemma accurate_beyond:
  assumes "accurate ar" and "0.06 \<le> \<bar>lat2 - lat1\<bar>" and "\<bar>lat2 - lat1\<bar> < 180"
  shows "\<not> num_haversine ar lat1 lon lat2 lon \<le> RADIUS_KM"
proof -
  from assms(1) have "\<bar>num_haversine ar lat1 lon lat2 lon - haversineDistanceKm lat1 lon lat2 lon\<bar> \<le> 1 / 2"
    unfolding accurate_def by blast
  with far_same_lon [OF assms(2,3), of lon] show ?thesis
    unfolding RADIUS_KM_def by linarith
qed

lemma cluster_of_distanceKm:
  "cluster_of ar anchor candidates = filter (\<lambda>r. distanceKm ar anchor r \<le> RADIUS_KM) candidates"
  by (simp add: cluster_of_def distanceKm_def)

lemma cluster_of_tight:
  "a \<in> set rs \<Longrightarrow> \<forall>a \<in> set rs. \<forall>r \<in> set rs. distanceKm ar a r \<le> RADIUS_KM \<Longrightarrow>
     cluster_of ar a rs = rs"
  by (simp add: cluster_of_distanceKm)

lemma foldl_add_sum_list:
  "foldl (\<lambda>s r. s + f r) a xs = a + sum_list (map f xs)" for a :: real
  by (induction xs arbitrary: a) simp_all

lemma make_zone_fields:
  "zone_id (make_zone ar zid now cluster) = zid"
  "latitude (centerCoordinates (make_zone ar zid now cluster)) =
     num_div ar (foldl (\<lambda>s r. num_add ar s (latitude (coordinates r))) 0 cluster)
       (real (length cluster))"
  "longitude (centerCoordinates (make_zone ar zid now cluster)) =
     num_div ar (foldl (\<lambda>s r. num_add ar s (longitude (coordinates r))) 0 cluster)
       (real (length cluster))"
  "radiusKm (make_zone ar zid now cluster) = RADIUS_KM"
  "reportCount (make_zone ar zid now cluster) = length cluster"
  "reports (make_zone ar zid now cluster) = cluster"
  by (simp_all add: make_zone_def Let_def)

lemma make_zone_exact_centroid:
  "latitude (centerCoordinates (make_zone exact zid now cluster)) =
     sum_list (map (\<lambda>r. latitude (coordinates r)) cluster) / real (length cluster)"
  "longitude (centerCoordinates (make_zone exact zid now cluster)) =
     sum_list (map (\<lambda>r. longitude (coordinates r)) cluster) / real (length cluster)"
  by (simp_all add: make_zone_fields exact_def foldl_add_sum_list)

lemma sweep_emit:
  assumes "report_id anchor \<notin> used" and "MIN_REPORTS \<le> length (cluster_of ar anchor candidates)"
  shows "sweep ar gen now candidates (anchor # todo) used zones =
     sweep ar gen now candidates todo
       (used \<union> set (map report_id (cluster_of ar anchor candidates)))
       (zones @ [make_zone ar (gen (length zones)) now (cluster_of ar anchor candidates)])"
  using assms by (simp add: Let_def)

lemma sweep_extends:
  "\<exists>more. sweep ar gen now candidates todo used zones = zones @ more"
proof (induction todo arbitrary: used zones)
  case Nil
  then show ?case by simp
next
  case (Cons anchor todo)
  show ?case
  proof (cases "report_id anchor \<notin> used \<and> MIN_REPORTS \<le> length (cluster_of ar anchor candidates)")
    case True
    from Cons.IH [of "used \<union> set (map report_id (cluster_of ar anchor candidates))"
        "zones @ [make_zone ar (gen (length zones)) now (cluster_of ar anchor candidates)]"]
    obtain more where "sweep ar gen now candidates todo
       (used \<union> set (map report_id (cluster_of ar anchor candidates)))
       (zones @ [make_zone ar (gen (length zones)) now (cluster_of ar anchor candidates)]) =
       (zones @ [make_zone ar (gen (length zones)) now (cluster_of ar anchor candidates)]) @ more"
      by blast
    with True show ?thesis
      by (simp add: Let_def)
  next
    case False
    then have "sweep ar gen now candidates (anchor # todo) used zones =
        sweep ar gen now candidates todo used zones"
      by (auto simp: Let_def)
    with Cons.IH [of used zones] show ?thesis by simp
  qed
qed

lemma sweep_emitted_zone:
  assumes "report_id anchor \<notin> used" and "MIN_REPORTS \<le> length (cluster_of ar anchor candidates)"
  shows "length zones < length (sweep ar gen now candidates (anchor # todo) used zones)"
    and "sweep ar gen now candidates (anchor # todo) used zones ! length zones =
      make_zone ar (gen (length zones)) now (cluster_of ar anchor candidates)"
    and "take (length zones) (sweep ar gen now candidates (anchor # todo) used zones) = zones"
proof -
  from sweep_extends [of ar gen now candidates todo
      "used \<union> set (map report_id (cluster_of ar anchor candidates))"
      "zones @ [make_zone ar (gen (length zones)) now (cluster_of ar anchor candidates)]"]
  obtain more where "sweep ar gen now candidates (anchor # todo) used zones =
      zones @ make_zone ar (gen (length zones)) now (cluster_of ar anchor candidates) # more"
    unfolding sweep_emit [OF assms] by auto
  then show "length zones < length (sweep ar gen now candidates (anchor # todo) used zones)"
    and "sweep ar gen now candidates (anchor # todo) used zones ! length zones =
      make_zone ar (gen (length zones)) now (cluster_of ar anchor candidates)"
    and "take (length zones) (sweep ar gen now candidates (anchor # todo) used zones) = zones"
    by simp_all
qed

text \<open>The loop over \<open>xs @ ys\<close> is the loop over \<open>ys\<close> from the state the loop over \<open>xs\<close> leaves.\<close>

lemma sweep_append:
  "sweep ar gen now candidates (xs @ ys) used zones =
     sweep ar gen now candidates ys (visited ar candidates xs used)
       (sweep ar gen now candidates xs used zones)"
  by (induction xs arbitrary: used zones) (simp_all add: Let_def)

text \<open>\<open>used\<close> holds exactly the ids of the members of the zones pushed so far.\<close>

lemma visited_members:
  "used = zone_members zones \<Longrightarrow>
     visited ar candidates xs used = zone_members (sweep ar gen now candidates xs used zones)"
proof (induction xs arbitrary: used zones)
  case Nil
  then show ?case by simp
next
  case (Cons anchor xs)
  show ?case
  proof (cases "report_id anchor \<notin> used \<and> MIN_REPORTS \<le> length (cluster_of ar anchor candidates)")
    case True
    have "used \<union> set (map report_id (cluster_of ar anchor candidates)) =
        zone_members (zones @ [make_zone ar (gen (length zones)) now (cluster_of ar anchor candidates)])"
      using Cons.prems by (simp add: zone_members_def make_zone_fields Un_commute)
    from Cons.IH [OF this] True show ?thesis
      by (simp add: Let_def)
  next
    case False
    then have "sweep ar gen now candidates (anchor # xs) used zones =
        sweep ar gen now candidates xs used zones"
      and "visited ar candidates (anchor # xs) used = visited ar candidates xs used"
      by (auto simp: Let_def)
    with Cons.IH [OF Cons.prems] show ?thesis by simp
  qed
qed

lemma sweep_all_used:
  "report_id ` set todo \<subseteq> used \<Longrightarrow> sweep ar gen now candidates todo used zones = zones"
  by (induction todo) auto

lemma sweep_all_small:
  "\<forall>a \<in> set todo. length (cluster_of ar a candidates) < MIN_REPORTS \<Longrightarrow>
     sweep ar gen now candidates todo used zones = zones"
  by (induction todo) (auto simp: Let_def)

lemma detect_tight_group:
  assumes q: "\<forall>r \<in> set rs. isHighRisk r \<and> isWithinDays (timestamp r) now TIME_WINDOW_DAYS"
    and near: "\<forall>a \<in> set rs. \<forall>r \<in> set rs. distanceKm ar a r \<le> RADIUS_KM"
    and many: "MIN_REPORTS \<le> length rs"
  shows "detectOutbreaks ar gen now rs = [make_zone ar (gen 0) now rs]"
proof -
  have c: "candidates_of now rs = rs"
    using q by (simp add: candidates_of_def)
  have cl: "cluster_of ar a rs = rs" if "a \<in> set rs" for a
    using near that by (simp add: cluster_of_distanceKm)
  from many obtain a todo where rs: "rs = a # todo"
    by (cases rs) (simp_all add: MIN_REPORTS_def)
  have a: "a \<in> set rs" by (simp add: rs)
  have "sweep ar gen now rs (a # todo) {} [] =
      sweep ar gen now rs todo ({} \<union> set (map report_id (cluster_of ar a rs)))
        ([] @ [make_zone ar (gen (length ([] :: OutbreakZone list))) now (cluster_of ar a rs)])"
    by (rule sweep_emit) (simp_all add: cl [OF a] many)
  also have "\<dots> = [make_zone ar (gen 0) now rs]"
    unfolding cl [OF a] by (subst sweep_all_used) (auto simp: rs)
  finally show ?thesis
    by (simp add: detectOutbreaks_def c Let_def rs [symmetric])
qed

lemma detect_no_cluster:
  assumes "\<forall>a \<in> set (candidates_of now rs).
      length (cluster_of ar a (candidates_of now rs)) < MIN_REPORTS"
  shows "detectOutbreaks ar gen now rs = []"
  using assms by (simp add: detectOutbreaks_def Let_def sweep_all_small)

lemma sweep_zones_sound:
  assumes "\<forall>z \<in> set zones. \<exists>a \<in> set candidates. \<exists>k.
      z = make_zone ar (gen k) now (cluster_of ar a candidates) \<and>
      MIN_REPORTS \<le> length (cluster_of ar a candidates)"
    and "set todo \<subseteq> set candidates"
  shows "\<forall>z \<in> set (sweep ar gen now candidates todo used zones). \<exists>a \<in> set candidates. \<exists>k.
      z = make_zone ar (gen k) now (cluster_of ar a candidates) \<and>
      MIN_REPORTS \<le> length (cluster_of ar a candidates)"
  using assms
proof (induction todo arbitrary: used zones)
  case Nil
  then show ?case by simp
next
  case (Cons anchor todo)
  from Cons.prems(2) have a: "anchor \<in> set candidates" and sub: "set todo \<subseteq> set candidates"
    by auto
  show ?case
  proof (cases "report_id anchor \<notin> used \<and> MIN_REPORTS \<le> length (cluster_of ar anchor candidates)")
    case True
    have "\<forall>z \<in> set (zones @ [make_zone ar (gen (length zones)) now (cluster_of ar anchor candidates)]).
        \<exists>a \<in> set candidates. \<exists>k.
          z = make_zone ar (gen k) now (cluster_of ar a candidates) \<and>
          MIN_REPORTS \<le> length (cluster_of ar a candidates)"
      using Cons.prems(1) a True by auto
    from Cons.IH [OF this sub] True show ?thesis
      by (simp add: Let_def)
  next
    case False
    then have "sweep ar gen now candidates (anchor # todo) used zones =
        sweep ar gen now candidates todo used zones"
      by (auto simp: Let_def)
    with Cons.IH [OF Cons.prems(1) sub] show ?thesis by simp
  qed
qed

lemma detectOutbreaks_sound:
  "\<forall>z \<in> set (detectOutbreaks ar gen now rs). \<exists>a \<in> set (candidates_of now rs). \<exists>k.
      z = make_zone ar (gen k) now (cluster_of ar a (candidates_of now rs)) \<and>
      MIN_REPORTS \<le> length (cluster_of ar a (candidates_of now rs))"
  unfolding detectOutbreaks_def Let_def
  by (rule sweep_zones_sound) simp_all

text \<open>
  The zone of an anchor that is unvisited when the loop reaches it: it is pushed after the
  zones of the candidates before the anchor, and stays there.
\<close>

lemma detect_emits:
  assumes split: "candidates_of now rs = pre @ anchor # post"
    and unvisited: "report_id anchor \<notin> visited ar (candidates_of now rs) pre {}"
    and big: "MIN_REPORTS \<le> length (cluster_of ar anchor (candidates_of now rs))"
  shows "length (sweep ar gen now (candidates_of now rs) pre {} []) <
      length (detectOutbreaks ar gen now rs)"
    and "detectOutbreaks ar gen now rs ! length (sweep ar gen now (candidates_of now rs) pre {} []) =
      make_zone ar (gen (length (sweep ar gen now (candidates_of now rs) pre {} []))) now
        (cluster_of ar anchor (candidates_of now rs))"
    and "take (length (sweep ar gen now (candidates_of now rs) pre {} []))
        (detectOutbreaks ar gen now rs) = sweep ar gen now (candidates_of now rs) pre {} []"
proof -
  let ?c = "candidates_of now rs"
  have d: "detectOutbreaks ar gen now rs =
      sweep ar gen now ?c (anchor # post) (visited ar ?c pre {}) (sweep ar gen now ?c pre {} [])"
    unfolding detectOutbreaks_def Let_def
    by (subst (2) split) (rule sweep_append)
  show "length (sweep ar gen now ?c pre {} []) < length (detectOutbreaks ar gen now rs)"
    unfolding d by (rule sweep_emitted_zone [OF unvisited big])
  show "detectOutbreaks ar gen now rs ! length (sweep ar gen now ?c pre {} []) =
      make_zone ar (gen (length (sweep ar gen now ?c pre {} []))) now (cluster_of ar anchor ?c)"
    unfolding d by (rule sweep_emitted_zone [OF unvisited big])
  show "take (length (sweep ar gen now ?c pre {} [])) (detectOutbreaks ar gen now rs) =
      sweep ar gen now ?c pre {} []"
    unfolding d by (rule sweep_emitted_zone [OF unvisited big])
qed

lemma visited_before:
  "visited ar candidates pre {} = zone_members (sweep ar gen now candidates pre {} [])"
  by (rule visited_members) (simp add: zone_members_def)

lemma distanceKm_sighting:
  "distanceKm ar (sighting i la lo t) (sighting j lb lo' t') = num_haversine ar la lo lb lo'"
  by (simp add: distanceKm_def sighting_def)

lemma distanceKm_exact: "distanceKm exact a r =
    haversineDistanceKm (latitude (coordinates a)) (longitude (coordinates a))
      (latitude (coordinates r)) (longitude (coordinates r))"
  by (simp add: distanceKm_def exact_def)

lemma report_id_sighting: "report_id (sighting i la lo t) = i"
  by (simp add: sighting_def)

lemma recent_sighting:
  "isWithinDays (timestamp (sighting i la lo (clock - dayMs))) clock TIME_WINDOW_DAYS"
  "isWithinDays (timestamp (sighting i la lo clock)) clock TIME_WINDOW_DAYS"
  by (simp_all add: isWithinDays_iff sighting_def dayMs_def TIME_WINDOW_DAYS_def)

lemma five_near_tight:
  assumes "accurate ar"
  shows "\<forall>a \<in> set five_near. \<forall>r \<in> set five_near. distanceKm ar a r \<le> RADIUS_KM"
  by (simp add: five_near_def distanceKm_sighting accurate_within [OF assms])

lemma five_near_2km:
  "\<forall>r \<in> set five_near. distanceKm exact (sighting ''p'' 34.05 (-118.24) clock) r \<le> 2"
  by (simp add: five_near_def distanceKm_exact sighting_def within_2km_same_lon)

lemma five_near_qualify:
  "\<forall>r \<in> set five_near. isHighRisk r \<and> isWithinDays (timestamp r) clock TIME_WINDOW_DAYS"
  by (simp add: five_near_def isHighRisk_sighting recent_sighting)

lemma detect_five_near:
  assumes "accurate ar"
  shows "detectOutbreaks ar gen clock five_near = [make_zone ar (gen 0) clock five_near]"
  by (rule detect_tight_group [OF five_near_qualify five_near_tight [OF assms]])
     (simp add: five_near_def MIN_REPORTS_def)

lemma candidates_four_near_one_far:
  "candidates_of clock four_near_one_far = four_near_one_far"
  by (simp add: candidates_of_def four_near_one_far_def isHighRisk_sighting recent_sighting)

lemma clusters_four_near_one_far:
  assumes "accurate ar"
  shows "\<forall>a \<in> set four_near_one_far. length (cluster_of ar a four_near_one_far) < MIN_REPORTS"
  by (simp add: four_near_one_far_def cluster_of_distanceKm distanceKm_sighting
      accurate_within [OF assms] accurate_beyond [OF assms] MIN_REPORTS_def)

lemma detect_four_near_one_far:
  assumes "accurate ar"
  shows "detectOutbreaks ar gen clock four_near_one_far = []"
  by (rule detect_no_cluster)
     (simp add: candidates_four_near_one_far clusters_four_near_one_far [OF assms])

lemma four_of_them_near:
  assumes "accurate ar"
  shows "filter (\<lambda>r. distanceKm ar (sighting ''p'' 34.05 (-118.24) clock) r \<le> RADIUS_KM)
      four_near_one_far = take 4 four_near_one_far"
  by (simp add: four_near_one_far_def distanceKm_sighting
      accurate_within [OF assms] accurate_beyond [OF assms])

lemma candidates_chain: "candidates_of clock chain = chain"
  by (simp add: candidates_of_def chain_def isHighRisk_sighting recent_sighting)

lemma cluster_chain_a:
  assumes "accurate ar"
  shows "cluster_of ar (sighting ''a'' 0 0 clock) chain = chain_south"
  by (simp add: chain_def chain_south_def cluster_of_distanceKm distanceKm_sighting
      accurate_within [OF assms] accurate_beyond [OF assms])

lemma cluster_chain_c:
  assumes "accurate ar"
  shows "cluster_of ar (sighting ''c'' 0.06 0 clock) chain = chain_north"
  by (simp add: chain_def chain_north_def cluster_of_distanceKm distanceKm_sighting
      accurate_within [OF assms] accurate_beyond [OF assms])

lemma chain_ids:
  "map report_id chain_south = [''a'', ''b1'', ''b2'', ''b3'', ''b4'']"
  "map report_id chain_north = [''b1'', ''b2'', ''b3'', ''b4'', ''c'']"
  by (simp_all add: chain_south_def chain_north_def report_id_sighting)

lemma chain_lengths: "MIN_REPORTS \<le> length chain_south" "MIN_REPORTS \<le> length chain_north"
  by (simp_all add: chain_south_def chain_north_def MIN_REPORTS_def)

lemma sweep_chain_6:
  assumes "accurate ar"
  shows "sweep ar gen clock chain [sighting ''c'' 0.06 0 clock]
     (set [''a'', ''b1'', ''b2'', ''b3'', ''b4'']) [make_zone ar (gen 0) clock chain_south] =
     [make_zone ar (gen 0) clock chain_south, make_zone ar (gen 1) clock chain_north]"
  by (simp only: sweep.simps Let_def cluster_chain_c [OF assms] chain_lengths chain_ids if_True)
     (simp add: report_id_sighting)

lemma sweep_chain_2:
  "sweep ar gen clock chain
     [sighting ''b1'' 0.03 0 clock, sighting ''b2'' 0.03 0 clock,
      sighting ''b3'' 0.03 0 clock, sighting ''b4'' 0.03 0 clock,
      sighting ''c'' 0.06 0 clock]
     (set [''a'', ''b1'', ''b2'', ''b3'', ''b4'']) [make_zone ar (gen 0) clock chain_south] =
   sweep ar gen clock chain [sighting ''c'' 0.06 0 clock]
     (set [''a'', ''b1'', ''b2'', ''b3'', ''b4'']) [make_zone ar (gen 0) clock chain_south]"
  by (simp only: sweep.simps report_id_sighting) simp

lemma sweep_chain_1:
  assumes "accurate ar"
  shows "sweep ar gen clock chain chain {} [] =
   sweep ar gen clock chain
     [sighting ''b1'' 0.03 0 clock, sighting ''b2'' 0.03 0 clock,
      sighting ''b3'' 0.03 0 clock, sighting ''b4'' 0.03 0 clock,
      sighting ''c'' 0.06 0 clock]
     (set [''a'', ''b1'', ''b2'', ''b3'', ''b4'']) [make_zone ar (gen 0) clock chain_south]"
proof -
  have "sweep ar gen clock chain (sighting ''a'' 0 0 clock #
     [sighting ''b1'' 0.03 0 clock, sighting ''b2'' 0.03 0 clock,
      sighting ''b3'' 0.03 0 clock, sighting ''b4'' 0.03 0 clock,
      sighting ''c'' 0.06 0 clock]) {} [] =
    sweep ar gen clock chain
     [sighting ''b1'' 0.03 0 clock, sighting ''b2'' 0.03 0 clock,
      sighting ''b3'' 0.03 0 clock, sighting ''b4'' 0.03 0 clock,
      sighting ''c'' 0.06 0 clock]
     ({} \<union> set (map report_id (cluster_of ar (sighting ''a'' 0 0 clock) chain)))
     ([] @ [make_zone ar (gen (length ([] :: OutbreakZone list))) clock
              (cluster_of ar (sighting ''a'' 0 0 clock) chain)])"
    by (rule sweep_emit) (simp_all add: cluster_chain_a [OF assms] chain_lengths)
  then show ?thesis
    by (subst (2) chain_def)
       (simp only: cluster_chain_a [OF assms] chain_ids Un_empty_left append_Nil list.size)
qed

lemma detect_chain:
  assumes "accurate ar"
  shows "detectOutbreaks ar gen clock chain =
     [make_zone ar (gen 0) clock chain_south, make_zone ar (gen 1) clock chain_north]"
  by (simp only: detectOutbreaks_def candidates_chain Let_def sweep_chain_1 [OF assms]
      sweep_chain_2 sweep_chain_6 [OF assms])

text \<open>
  C2. The claimed disjointness fails on \<open>chain\<close>: the first sighting claims the four
  sightings 3.3 km north of it, and the last sighting, 6.7 km from the first and therefore
  still unvisited, claims the same four again. \<open>used\<close> is consulted for anchors only;
  the cluster filter ranges over all candidates.
\<close>

theorem zones_share_members:
  "detectOutbreaks exact gen clock chain =
     [make_zone exact (gen 0) clock chain_south, make_zone exact (gen 1) clock chain_north]
   \<and> map report_id (reports (detectOutbreaks exact gen clock chain ! 0)) =
       [''a'', ''b1'', ''b2'', ''b3'', ''b4'']
   \<and> map report_id (reports (detectOutbreaks exact gen clock chain ! 1)) =
       [''b1'', ''b2'', ''b3'', ''b4'', ''c'']"
  unfolding detect_chain [OF accurate_exact]
  by (simp add: make_zone_fields chain_ids)

lemma candidates_far_first: "candidates_of clock far_first = far_first"
  by (simp add: candidates_of_def far_first_def five_near_def isHighRisk_sighting recent_sighting)

lemma cluster_far_first_r0:
  assumes "accurate ar"
  shows "cluster_of ar (sighting ''r0'' 35.05 (-118.24) (clock - dayMs)) far_first =
     [sighting ''r0'' 35.05 (-118.24) (clock - dayMs)]"
  by (simp add: far_first_def five_near_def cluster_of_distanceKm distanceKm_sighting
      accurate_within [OF assms] accurate_beyond [OF assms])

lemma cluster_far_first_r1:
  assumes "accurate ar"
  shows "cluster_of ar (sighting ''r1'' 34.05 (-118.24) (clock - dayMs)) far_first = five_near"
  by (simp add: far_first_def five_near_def cluster_of_distanceKm distanceKm_sighting
      accurate_within [OF assms] accurate_beyond [OF assms])

lemma visited_far_first_r0:
  assumes "accurate ar"
  shows "visited ar far_first [sighting ''r0'' 35.05 (-118.24) (clock - dayMs)] {} = {}"
  by (simp only: visited.simps Let_def cluster_far_first_r0 [OF assms])
     (simp add: MIN_REPORTS_def)

lemma sweep_far_first_r0:
  assumes "accurate ar"
  shows "sweep ar gen clock far_first [sighting ''r0'' 35.05 (-118.24) (clock - dayMs)] {} [] = []"
  by (simp only: sweep.simps Let_def cluster_far_first_r0 [OF assms])
     (simp add: MIN_REPORTS_def)

text \<open>
  C4. Let \<open>anchor\<close> be a candidate that is unvisited when the loop reaches it, after the
  candidates \<open>pre\<close>, and whose cluster (the candidates within \<open>RADIUS_KM\<close> of it, itself
  included) has at least \<open>MIN_REPORTS\<close> members. Then \<open>detectOutbreaks\<close> returns a zone
  for it, right after the zones of \<open>pre\<close>, whose members are the ids visited so far: the
  zone's centre is the mean of the members' latitudes and longitudes as the arithmetic
  computes it (their sum divided by their number; the arithmetic mean when nothing is
  rounded), its \<open>radiusKm\<close> is the configured constant and its \<open>reportCount\<close> the size of
  the cluster. Every zone returned is the zone of such a cluster. With the default
  configuration (5, 5, 7, 0.75), qualifying records that are pairwise within the radius,
  at least five of them, give exactly one zone holding them all, and records none of
  whose clusters reaches five members give none; in an arithmetic whose distances are
  right to half a kilometre this is so for the five sample sightings within 2 km of
  (34.05, -118.24), and for the same with the fifth out of range.
\<close>

theorem zone_emitted_for_cluster:
  assumes "candidates_of now rs = pre @ anchor # post"
    and "report_id anchor \<notin> visited ar (candidates_of now rs) pre {}"
    and "MIN_REPORTS \<le> length (cluster_of ar anchor (candidates_of now rs))"
  shows "length (sweep ar gen now (candidates_of now rs) pre {} []) <
        length (detectOutbreaks ar gen now rs)
    \<and> detectOutbreaks ar gen now rs ! length (sweep ar gen now (candidates_of now rs) pre {} []) =
        make_zone ar (gen (length (sweep ar gen now (candidates_of now rs) pre {} []))) now
          (cluster_of ar anchor (candidates_of now rs))
    \<and> take (length (sweep ar gen now (candidates_of now rs) pre {} []))
          (detectOutbreaks ar gen now rs) = sweep ar gen now (candidates_of now rs) pre {} []
    \<and> visited ar (candidates_of now rs) pre {} =
        zone_members (sweep ar gen now (candidates_of now rs) pre {} [])
    \<and> cluster_of ar anchor (candidates_of now rs) =
        filter (\<lambda>r. distanceKm ar anchor r \<le> RADIUS_KM) (candidates_of now rs)
    \<and> latitude (centerCoordinates (make_zone ar zid now cluster)) =
        num_div ar (foldl (\<lambda>s r. num_add ar s (latitude (coordinates r))) 0 cluster)
          (real (length cluster))
    \<and> longitude (centerCoordinates (make_zone ar zid now cluster)) =
        num_div ar (foldl (\<lambda>s r. num_add ar s (longitude (coordinates r))) 0 cluster)
          (real (length cluster))
    \<and> latitude (centerCoordinates (make_zone exact zid now cluster)) =
        sum_list (map (\<lambda>r. latitude (coordinates r)) cluster) / real (length cluster)
    \<and> longitude (centerCoordinates (make_zone exact zid now cluster)) =
        sum_list (map (\<lambda>r. longitude (coordinates r)) cluster) / real (length cluster)
    \<and> radiusKm (make_zone ar zid now cluster) = RADIUS_KM
    \<and> reportCount (make_zone ar zid now cluster) = length cluster
    \<and> reports (make_zone ar zid now cluster) = cluster
    \<and> (\<forall>z \<in> set (detectOutbreaks ar gen now rs). \<exists>a \<in> set (candidates_of now rs). \<exists>k.
          z = make_zone ar (gen k) now (cluster_of ar a (candidates_of now rs)) \<and>
          MIN_REPORTS \<le> length (cluster_of ar a (candidates_of now rs)))
    \<and> (\<forall>qs. (\<forall>r \<in> set qs. isHighRisk r \<and> isWithinDays (timestamp r) now TIME_WINDOW_DAYS) \<and>
        (\<forall>a \<in> set qs. \<forall>r \<in> set qs. distanceKm ar a r \<le> RADIUS_KM) \<and> MIN_REPORTS \<le> length qs
        \<longrightarrow> detectOutbreaks ar gen now qs = [make_zone ar (gen 0) now qs])
    \<and> (\<forall>qs. (\<forall>a \<in> set (candidates_of now qs).
          length (cluster_of ar a (candidates_of now qs)) < MIN_REPORTS)
        \<longrightarrow> detectOutbreaks ar gen now qs = [])
    \<and> MIN_REPORTS = 5 \<and> RADIUS_KM = 5 \<and> TIME_WINDOW_DAYS = 7 \<and> MIN_CONFIDENCE = 0.75
    \<and> (\<forall>r \<in> set five_near. distanceKm exact (sighting ''p'' 34.05 (-118.24) clock) r \<le> 2)
    \<and> (accurate ar \<longrightarrow>
          detectOutbreaks ar gen clock five_near = [make_zone ar (gen 0) clock five_near])
    \<and> reportCount (make_zone ar (gen 0) clock five_near) = 5
    \<and> (accurate ar \<longrightarrow>
          filter (\<lambda>r. distanceKm ar (sighting ''p'' 34.05 (-118.24) clock) r \<le> RADIUS_KM)
            four_near_one_far = take 4 four_near_one_far)
    \<and> (accurate ar \<longrightarrow> detectOutbreaks ar gen clock four_near_one_far = [])
    \<and> accurate exact"
proof -
  have g1: "\<forall>qs. (\<forall>r \<in> set qs. isHighRisk r \<and> isWithinDays (timestamp r) now TIME_WINDOW_DAYS) \<and>
        (\<forall>a \<in> set qs. \<forall>r \<in> set qs. distanceKm ar a r \<le> RADIUS_KM) \<and> MIN_REPORTS \<le> length qs
        \<longrightarrow> detectOutbreaks ar gen now qs = [make_zone ar (gen 0) now qs]"
    using detect_tight_group by blast
  have g2: "\<forall>qs. (\<forall>a \<in> set (candidates_of now qs).
          length (cluster_of ar a (candidates_of now qs)) < MIN_REPORTS)
        \<longrightarrow> detectOutbreaks ar gen now qs = []"
    using detect_no_cluster by blast
  have five: "reportCount (make_zone ar (gen 0) clock five_near) = 5"
    by (simp add: make_zone_fields five_near_def)
  have s1: "accurate ar \<longrightarrow>
          detectOutbreaks ar gen clock five_near = [make_zone ar (gen 0) clock five_near]"
    using detect_five_near by blast
  have s2: "accurate ar \<longrightarrow>
          filter (\<lambda>r. distanceKm ar (sighting ''p'' 34.05 (-118.24) clock) r \<le> RADIUS_KM)
            four_near_one_far = take 4 four_near_one_far"
    using four_of_them_near by blast
  have s3: "accurate ar \<longrightarrow> detectOutbreaks ar gen clock four_near_one_far = []"
    using detect_four_near_one_far by blast
  show ?thesis
    by (intro conjI detect_emits [OF assms] visited_before cluster_of_distanceKm
        make_zone_fields make_zone_exact_centroid detectOutbreaks_sound g1 g2
        MIN_REPORTS_def RADIUS_KM_def TIME_WINDOW_DAYS_def MIN_CONFIDENCE_def
        five_near_2km s1 five s2 s3 accurate_exact)
qed

theorem zone_emitted_for_cluster_witness:
  "candidates_of clock far_first =
     [sighting ''r0'' 35.05 (-118.24) (clock - dayMs)] @
     sighting ''r1'' 34.05 (-118.24) (clock - dayMs) # tl five_near
   \<and> report_id (sighting ''r1'' 34.05 (-118.24) (clock - dayMs)) \<notin>
       visited exact (candidates_of clock far_first)
         [sighting ''r0'' 35.05 (-118.24) (clock - dayMs)] {}
   \<and> MIN_REPORTS \<le> length (cluster_of exact (sighting ''r1'' 34.05 (-118.24) (clock - dayMs))
         (candidates_of clock far_first))
   \<and> 0 < length (detectOutbreaks exact (\<lambda>k. ''zone'') clock far_first)
   \<and> detectOutbreaks exact (\<lambda>k. ''zone'') clock far_first ! 0 =
       make_zone exact ''zone'' clock five_near
   \<and> reportCount (make_zone exact ''zone'' clock five_near) = 5
   \<and> radiusKm (make_zone exact ''zone'' clock five_near) = 5
   \<and> reports (make_zone exact ''zone'' clock five_near) = five_near
   \<and> accurate exact
   \<and> detectOutbreaks exact (\<lambda>k. ''zone'') clock five_near =
       [make_zone exact ''zone'' clock five_near]
   \<and> detectOutbreaks exact (\<lambda>k. ''zone'') clock four_near_one_far = []"
proof -
  let ?r0 = "sighting ''r0'' 35.05 (-118.24) (clock - dayMs)"
  let ?r1 = "sighting ''r1'' 34.05 (-118.24) (clock - dayMs)"
  let ?G = "\<lambda>k :: nat. ''zone''"
  note ex = accurate_exact
  have h1: "candidates_of clock far_first = [?r0] @ ?r1 # tl five_near"
    unfolding candidates_far_first by (simp add: far_first_def five_near_def)
  have h2: "report_id ?r1 \<notin> visited exact (candidates_of clock far_first) [?r0] {}"
    unfolding candidates_far_first visited_far_first_r0 [OF ex] by simp
  have h3: "MIN_REPORTS \<le> length (cluster_of exact ?r1 (candidates_of clock far_first))"
    unfolding candidates_far_first cluster_far_first_r1 [OF ex]
    by (simp add: five_near_def MIN_REPORTS_def)
  note t = zone_emitted_for_cluster [OF h1 h2 h3, of ?G "''zone''" five_near]
  from t have "length (sweep exact ?G clock (candidates_of clock far_first) [?r0] {} []) <
        length (detectOutbreaks exact ?G clock far_first)"
    by (rule conjunct1)
  then have t1: "0 < length (detectOutbreaks exact ?G clock far_first)"
    unfolding candidates_far_first sweep_far_first_r0 [OF ex] list.size .
  from t have "detectOutbreaks exact ?G clock far_first !
        length (sweep exact ?G clock (candidates_of clock far_first) [?r0] {} []) =
        make_zone exact (?G (length (sweep exact ?G clock (candidates_of clock far_first) [?r0] {} [])))
          clock (cluster_of exact ?r1 (candidates_of clock far_first))"
    by (rule conjunct1 [OF conjunct2])
  then have t2: "detectOutbreaks exact ?G clock far_first ! 0 =
       make_zone exact ''zone'' clock five_near"
    unfolding candidates_far_first sweep_far_first_r0 [OF ex] cluster_far_first_r1 [OF ex]
      list.size .
  have cnt: "reportCount (make_zone exact ''zone'' clock five_near) = 5"
    by (simp add: make_zone_fields five_near_def)
  have rad: "radiusKm (make_zone exact ''zone'' clock five_near) = 5"
    by (simp add: make_zone_fields RADIUS_KM_def)
  have rep: "reports (make_zone exact ''zone'' clock five_near) = five_near"
    by (simp add: make_zone_fields)
  show ?thesis
    by (intro conjI h1 h2 h3 t1 t2 cnt rad rep ex detect_five_near [OF ex]
        detect_four_near_one_far [OF ex])
qed

end
